theory Spec2Isabelle
  imports
    Main
    "HOL-Library.Char_ord"
    "HOL-Library.List_Lexorder"
    "HOL-Library.Product_Lexorder"
    "HOL-Library.Multiset"
    "HOL-Library.AList"
    "HOL-Library.Word"
begin

section \<open>Strings\<close>

text \<open>
  A Python \<open>str\<close> is modelled as a \<open>string\<close>: the list of its code points, each below 256.
  On that range \<open>\d\<close> matches exactly the ten ASCII digits, \<open>[a-zA-Z]\<close> the ASCII letters,
  \<open>str.lower\<close> moves \<open>A..Z\<close> and the Latin-1 capitals (192..222 except 215) up by 32, and
  the order of \<open>str\<close> is the lexicographic order of the code points, which is the order of
  \<open>char list\<close> here.
\<close>

definition is_digit :: "char \<Rightarrow> bool" where
  "is_digit c = (CHR ''0'' \<le> c \<and> c \<le> CHR ''9'')"

definition is_alpha :: "char \<Rightarrow> bool" where
  "is_alpha c = ((CHR ''a'' \<le> c \<and> c \<le> CHR ''z'') \<or> (CHR ''A'' \<le> c \<and> c \<le> CHR ''Z''))"

definition lower_char :: "char \<Rightarrow> char" where
  "lower_char c =
     (let n = (of_char c :: nat) in
      if (65 \<le> n \<and> n \<le> 90) \<or> (192 \<le> n \<and> n \<le> 222 \<and> n \<noteq> 215)
      then char_of (n + 32) else c)"

definition lower :: "string \<Rightarrow> string" where
  "lower s = map lower_char s"

text \<open>\<open>needle in haystack\<close> on strings: some suffix of the haystack starts with the needle.\<close>

fun str_contains :: "string \<Rightarrow> string \<Rightarrow> bool" where
  "str_contains needle [] = (needle = [])"
| "str_contains needle (c # cs) =
     (take (length needle) (c # cs) = needle \<or> str_contains needle cs)"

text \<open>\<open>int(s)\<close> on a non-empty run of ASCII digits (the conversion is exact at every length).\<close>

definition digit_val :: "char \<Rightarrow> int" where
  "digit_val c = int (of_char c) - 48"

definition int_of_digits :: "string \<Rightarrow> int" where
  "int_of_digits s = foldl (\<lambda>acc c. 10 * acc + digit_val c) 0 s"

section \<open>Channel classification\<close>

datatype channel = Stable | Beta | Dev

definition channel_name :: "channel \<Rightarrow> string" where
  "channel_name ch = (case ch of Stable \<Rightarrow> ''stable'' | Beta \<Rightarrow> ''beta'' | Dev \<Rightarrow> ''dev'')"

text \<open>
  \<open>re.match(r"^v?\d+\.\d+\.\d+$", version)\<close>. Each \<open>\d+\<close> is followed by a character
  that is no digit, so the greedy run of digits is the only candidate; \<open>$\<close> holds at the end
  of the string and just before a newline that ends it.
\<close>

definition at_dollar :: "string \<Rightarrow> bool" where
  "at_dollar rest = (rest = [] \<or> rest = [CHR 0x0A])"

definition match_stable :: "string \<Rightarrow> bool" where
  "match_stable version =
     (let s0 = (case version of c # cs \<Rightarrow> if c = CHR ''v'' then cs else version | [] \<Rightarrow> version);
          d1 = takeWhile is_digit s0; r1 = dropWhile is_digit s0
      in d1 \<noteq> [] \<and>
         (case r1 of [] \<Rightarrow> False | c1 # s1 \<Rightarrow> c1 = CHR ''.'' \<and>
           (let d2 = takeWhile is_digit s1; r2 = dropWhile is_digit s1
            in d2 \<noteq> [] \<and>
               (case r2 of [] \<Rightarrow> False | c2 # s2 \<Rightarrow> c2 = CHR ''.'' \<and>
                 (let d3 = takeWhile is_digit s2; r3 = dropWhile is_digit s2
                  in d3 \<noteq> [] \<and> at_dollar r3)))))"

definition determine_channel :: "string \<Rightarrow> channel" where
  "determine_channel version =
     (let version_lower = lower version in
      if match_stable version then Stable
      else if str_contains ''-beta'' version_lower \<or> str_contains ''-rc'' version_lower then Beta
      else Dev)"

section \<open>Version parsing\<close>

type_synonym version_tuple = "int \<times> int \<times> int \<times> string \<times> int"

text \<open>\<open>version.lstrip("v")\<close> removes every leading \<open>v\<close>.\<close>

definition lstrip_v :: "string \<Rightarrow> string" where
  "lstrip_v s = dropWhile (\<lambda>c. c = CHR ''v'') s"

text \<open>
  \<open>re.match(r"(\d+)\.(\d+)\.(\d+)(?:-([a-zA-Z]+)(\d+)?)?", v)\<close>, anchored at the start only.
  The result holds groups 1 to 5; groups 4 and 5 are \<open>None\<close> when they took no part in
  the match. The optional suffix is tried greedily and given up when no letter follows the dash.
\<close>

type_synonym version_match = "string \<times> string \<times> string \<times> string option \<times> string option"

definition match_suffix :: "string \<Rightarrow> string option \<times> string option" where
  "match_suffix r3 =
     (case r3 of [] \<Rightarrow> (None, None)
      | c # t \<Rightarrow>
          if c = CHR ''-'' \<and> takeWhile is_alpha t \<noteq> []
          then (Some (takeWhile is_alpha t),
                (let d5 = takeWhile is_digit (dropWhile is_alpha t)
                 in if d5 = [] then None else Some d5))
          else (None, None))"

definition match_version :: "string \<Rightarrow> version_match option" where
  "match_version v =
     (let d1 = takeWhile is_digit v; r1 = dropWhile is_digit v in
      if d1 = [] then None else
      case r1 of [] \<Rightarrow> None | c1 # s1 \<Rightarrow> if c1 \<noteq> CHR ''.'' then None else
     (let d2 = takeWhile is_digit s1; r2 = dropWhile is_digit s1 in
      if d2 = [] then None else
      case r2 of [] \<Rightarrow> None | c2 # s2 \<Rightarrow> if c2 \<noteq> CHR ''.'' then None else
     (let d3 = takeWhile is_digit s2; r3 = dropWhile is_digit s2 in
      if d3 = [] then None else
      (case match_suffix r3 of (g4, g5) \<Rightarrow> Some (d1, d2, d3, g4, g5)))))"

definition parse_version_tuple :: "string \<Rightarrow> version_tuple" where
  "parse_version_tuple version =
     (let v = lstrip_v version in
      case match_version v of
        None \<Rightarrow> (0, 0, 0, ''zzz'', 0)
      | Some (g1, g2, g3, g4, g5) \<Rightarrow>
          (let major = int_of_digits g1; minor = int_of_digits g2; patch = int_of_digits g3;
               prerelease_type = (case g4 of None \<Rightarrow> '''' | Some t \<Rightarrow> t);
               prerelease_num = (case g5 of None \<Rightarrow> 0 | Some d \<Rightarrow> int_of_digits d);
               prerelease_type = (if prerelease_type = [] then ''zzz'' else prerelease_type)
           in (major, minor, patch, lower prerelease_type, prerelease_num)))"

section \<open>Sorting\<close>

text \<open>
  \<open>xs.sort(key=f, reverse=True)\<close> on keys that are always comparable: the list is reversed,
  sorted stably in ascending key order and reversed again, so the keys descend and equal keys keep
  the order they had in \<open>xs\<close>.
\<close>

definition sort_reverse :: "('a \<Rightarrow> 'k::linorder) \<Rightarrow> 'a list \<Rightarrow> 'a list" where
  "sort_reverse f xs = rev (sort_key f (rev xs))"

section \<open>JSON documents\<close>

text \<open>
  What \<open>json.load\<close> returns: \<open>None\<close>, a bool, an int (unbounded), a float (kept as its 64
  bits, which the tools only test for zero), a str, a list, or a dict with string keys. A dict
  is an association list in insertion order; \<open>d.get(k)\<close> is \<open>map_of d k\<close> and \<open>d[k] = v\<close> is
  \<open>AList.update k v d\<close>, which overwrites in place or appends.
\<close>

datatype json =
    JNull
  | JBool bool
  | JInt int
  | JFloat "64 word"
  | JStr string
  | JArr "json list"
  | JObj "(string \<times> json) list"

type_synonym obj = "(string \<times> json) list"

datatype py_error = KeyError | AttributeError | TypeError

text \<open>\<open>d.get(k) == s\<close> for a str \<open>s\<close>: the value is present and is that very string.\<close>

definition get_is :: "obj \<Rightarrow> string \<Rightarrow> string \<Rightarrow> bool" where
  "get_is d k s = (case map_of d k of Some (JStr t) \<Rightarrow> t = s | _ \<Rightarrow> False)"

text \<open>\<open>d.get(k, default)\<close>.\<close>

definition get_default :: "obj \<Rightarrow> string \<Rightarrow> json \<Rightarrow> json" where
  "get_default d k dflt = (case map_of d k of None \<Rightarrow> dflt | Some v \<Rightarrow> v)"

text \<open>Truth value of a JSON value, as \<open>if x:\<close> tests it; a float is false when it is zero.\<close>

definition truthy :: "json \<Rightarrow> bool" where
  "truthy x =
     (case x of
        JNull \<Rightarrow> False
      | JBool b \<Rightarrow> b
      | JInt n \<Rightarrow> n \<noteq> 0
      | JFloat w \<Rightarrow> push_bit 1 w \<noteq> 0
      | JStr s \<Rightarrow> s \<noteq> []
      | JArr xs \<Rightarrow> xs \<noteq> []
      | JObj d \<Rightarrow> d \<noteq> [])"

section \<open>Index updater\<close>

text \<open>
  \<open>[r for r in releases if r.get("version") != version]\<close> over a list: an element that is
  no dict has no \<open>get\<close>.
\<close>

fun without_version :: "string \<Rightarrow> json list \<Rightarrow> py_error + obj list" where
  "without_version version [] = Inr []"
| "without_version version (JObj r # rest) =
     (case without_version version rest of
        Inl e \<Rightarrow> Inl e
      | Inr kept \<Rightarrow> Inr (if get_is r ''version'' version then kept else r # kept))"
| "without_version version (_ # rest) = Inl AttributeError"

text \<open>
  The same comprehension over whatever \<open>index["releases"]\<close> holds. A str yields its characters
  and a dict its keys, all of them strings without \<open>get\<close>; the other values cannot be iterated.
\<close>

definition remove_version :: "string \<Rightarrow> json \<Rightarrow> py_error + obj list" where
  "remove_version version releases =
     (case releases of
        JArr xs \<Rightarrow> without_version version xs
      | JStr s \<Rightarrow> if s = [] then Inr [] else Inl AttributeError
      | JObj d \<Rightarrow> if d = [] then Inr [] else Inl AttributeError
      | _ \<Rightarrow> Inl TypeError)"

text \<open>
  The sort key \<open>parse_version_tuple(r.get("version", ""))\<close>: a version that is present but is
  no str has no \<open>lstrip\<close>.
\<close>

definition has_sort_key :: "obj \<Rightarrow> bool" where
  "has_sort_key r =
     (case map_of r ''version'' of None \<Rightarrow> True | Some (JStr s) \<Rightarrow> True | Some _ \<Rightarrow> False)"

definition release_key :: "obj \<Rightarrow> version_tuple" where
  "release_key r =
     parse_version_tuple (case map_of r ''version'' of Some (JStr s) \<Rightarrow> s | _ \<Rightarrow> [])"

definition sort_releases :: "obj list \<Rightarrow> py_error + obj list" where
  "sort_releases rs =
     (if list_all has_sort_key rs then Inr (sort_reverse release_key rs) else Inl AttributeError)"

text \<open>
  \<open>channel_releases = [r for r in releases if r.get("channel") == ch]\<close>, then
  \<open>index["latest_" + ch] = channel_releases[0]["version"]\<close> when the list is not empty.
\<close>

definition set_latest :: "string \<Rightarrow> obj list \<Rightarrow> obj \<Rightarrow> py_error + obj" where
  "set_latest ch releases index =
     (case filter (\<lambda>r. get_is r ''channel'' ch) releases of
        [] \<Rightarrow> Inr index
      | r # _ \<Rightarrow>
          (case map_of r ''version'' of
             None \<Rightarrow> Inl KeyError
           | Some v \<Rightarrow> Inr (AList.update (''latest_'' @ ch) v index)))"

fun set_latest_each :: "string list \<Rightarrow> obj list \<Rightarrow> obj \<Rightarrow> py_error + obj" where
  "set_latest_each [] releases index = Inr index"
| "set_latest_each (ch # chs) releases index =
     (case set_latest ch releases index of
        Inl e \<Rightarrow> Inl e
      | Inr index' \<Rightarrow> set_latest_each chs releases index')"

definition make_entry ::
  "string \<Rightarrow> string \<Rightarrow> string \<Rightarrow> string \<Rightarrow> int \<Rightarrow> string \<Rightarrow> string \<Rightarrow> obj" where
  "make_entry release_date version git_tag channel build_count manifest_url s3_url =
     (let new_entry =
        [(''version'', JStr version),
         (''git_tag'', JStr git_tag),
         (''release_date'', JStr release_date),
         (''channel'', JStr channel),
         (''build_count'', JInt build_count),
         (''manifest_url'', JStr manifest_url)]
      in if s3_url \<noteq> [] then AList.update ''s3_manifest_url'' (JStr s3_url) new_entry
         else new_entry)"

text \<open>
  \<open>update_index\<close>, with the two clock readings passed in: \<open>today\<close> is
  \<open>time.strftime("%Y-%m-%d")\<close> and \<open>now\<close> is \<open>int(time.time())\<close>. The function raises where
  the loaded document has not the shape it reads; the result is then \<open>Inl\<close> of the exception.
\<close>

definition update_index ::
  "string \<Rightarrow> int \<Rightarrow> obj \<Rightarrow> string \<Rightarrow> string \<Rightarrow> int \<Rightarrow> string \<Rightarrow> string \<Rightarrow> py_error + obj" where
  "update_index today now index version git_tag build_count manifest_url s3_url =
     (let channel = channel_name (determine_channel version);
          new_entry = make_entry today version git_tag channel build_count manifest_url s3_url
      in case map_of index ''releases'' of
           None \<Rightarrow> Inl KeyError
         | Some old \<Rightarrow>
        (case remove_version version old of
           Inl e \<Rightarrow> Inl e
         | Inr kept \<Rightarrow>
        (case sort_releases (kept @ [new_entry]) of
           Inl e \<Rightarrow> Inl e
         | Inr releases \<Rightarrow>
        (let index1 = AList.update ''releases'' (JArr (map JObj releases)) index;
             index2 = AList.update ''updated_at'' (JInt now) index1
         in case set_latest ''stable'' releases index2 of
              Inl e \<Rightarrow> Inl e
            | Inr index3 \<Rightarrow> set_latest_each [''stable'', ''beta'', ''dev''] releases index3))))"

text \<open>\<open>create_empty_index\<close>, with the clock reading passed in.\<close>

definition create_empty_index :: "int \<Rightarrow> obj" where
  "create_empty_index now =
     [(''format_version'', JInt 1),
      (''updated_at'', JInt now),
      (''description'', JStr ''PX4 Firmware Release Index''),
      (''releases'', JArr [])]"

section \<open>Manifest builder\<close>

text \<open>
  \<open>extract_px4_metadata\<close>. The second argument is what \<open>json.load\<close> read from the file, or
  \<open>None\<close> when opening or parsing raised. A document that is no dict either fails the test of
  the required fields or raises at its first \<open>get\<close>; both ways end in \<open>None\<close>.
\<close>

definition has_key :: "obj \<Rightarrow> string \<Rightarrow> bool" where
  "has_key d k = (case map_of d k of None \<Rightarrow> False | Some v \<Rightarrow> True)"

definition extract_px4_metadata :: "string \<Rightarrow> json option \<Rightarrow> obj option" where
  "extract_px4_metadata name content =
     (case content of
        Some (JObj data) \<Rightarrow>
          if \<not> has_key data ''magic'' \<or> \<not> has_key data ''board_id'' \<or> \<not> has_key data ''image''
          then None
          else
            (let metadata =
               [(''filename'', JStr name),
                (''board_id'', get_default data ''board_id'' (JInt 0)),
                (''board_revision'', get_default data ''board_revision'' (JInt 0)),
                (''version'', get_default data ''version'' (JStr [])),
                (''git_identity'', get_default data ''git_identity'' (JStr [])),
                (''git_hash'', get_default data ''git_hash'' (JStr [])),
                (''build_time'', get_default data ''build_time'' (JInt 0)),
                (''image_size'', get_default data ''image_size'' (JInt 0)),
                (''sha256sum'', get_default data ''sha256sum'' (JStr [])),
                (''mav_autopilot'', get_default data ''mav_autopilot'' (JInt 12))]
             in case map_of data ''manifest'' of
                  None \<Rightarrow> Some metadata
                | Some m \<Rightarrow>
                    if truthy m then Some (AList.update ''manifest'' m metadata)
                    else Some metadata)
      | _ \<Rightarrow> None)"

text \<open>\<open>base_url.rstrip("/")\<close> removes every trailing slash.\<close>

definition rstrip_slash :: "string \<Rightarrow> string" where
  "rstrip_slash s = rev (dropWhile (\<lambda>c. c = CHR ''/'') (rev s))"

text \<open>
  The loop over the files, in the order of their sorted paths. \<open>metadata["filename"]\<close> raises
  when the key is missing, and the concatenation raises when it is no str.
\<close>

fun collect_builds :: "string \<Rightarrow> (string \<times> json option) list \<Rightarrow> py_error + obj list" where
  "collect_builds base_url [] = Inr []"
| "collect_builds base_url ((name, content) # px4_files) =
     (case extract_px4_metadata name content of
        None \<Rightarrow> collect_builds base_url px4_files
      | Some metadata \<Rightarrow>
          if metadata = [] then collect_builds base_url px4_files
          else if base_url \<noteq> [] then
            (case map_of metadata ''filename'' of
               None \<Rightarrow> Inl KeyError
             | Some (JStr filename) \<Rightarrow>
                 (case collect_builds base_url px4_files of
                    Inl e \<Rightarrow> Inl e
                  | Inr builds \<Rightarrow>
                      Inr (AList.update ''url'' (JStr (rstrip_slash base_url @ ''/'' @ filename))
                             metadata # builds))
             | Some _ \<Rightarrow> Inl TypeError)
          else
            (case collect_builds base_url px4_files of
               Inl e \<Rightarrow> Inl e
             | Inr builds \<Rightarrow> Inr (metadata # builds)))"

text \<open>The sort key \<open>b.get("manifest", {}).get("target", b["filename"])\<close>.\<close>

definition build_key :: "obj \<Rightarrow> py_error + json" where
  "build_key b =
     (case get_default b ''manifest'' (JObj []) of
        JObj m \<Rightarrow>
          (case map_of b ''filename'' of
             None \<Rightarrow> Inl KeyError
           | Some filename \<Rightarrow> Inr (get_default m ''target'' filename))
      | _ \<Rightarrow> Inl AttributeError)"

fun build_keys :: "obj list \<Rightarrow> py_error + json list" where
  "build_keys [] = Inr []"
| "build_keys (b # bs) =
     (case build_key b of
        Inl e \<Rightarrow> Inl e
      | Inr k \<Rightarrow> (case build_keys bs of Inl e \<Rightarrow> Inl e | Inr ks \<Rightarrow> Inr (k # ks)))"

text \<open>
  \<open>generate_release_manifest\<close>, with the clock reading \<open>now\<close> passed in. The keys of
  \<open>builds.sort\<close> are arbitrary JSON values, whose order (and whether two of them can be
  compared at all) is the interpreter's; the sort of a list by its computed keys is therefore the
  parameter \<open>list_sort\<close>, which returns the reordered list or the exception of a comparison.
\<close>

definition generate_release_manifest ::
  "(json list \<Rightarrow> obj list \<Rightarrow> py_error + obj list) \<Rightarrow> int \<Rightarrow> (string \<times> json option) list \<Rightarrow>
     string \<Rightarrow> string \<Rightarrow> string \<Rightarrow> py_error + obj" where
  "generate_release_manifest list_sort now px4_files version git_tag base_url =
     (case collect_builds base_url px4_files of
        Inl e \<Rightarrow> Inl e
      | Inr builds0 \<Rightarrow>
     (case build_keys builds0 of
        Inl e \<Rightarrow> Inl e
      | Inr keys \<Rightarrow>
     (case list_sort keys builds0 of
        Inl e \<Rightarrow> Inl e
      | Inr builds \<Rightarrow>
          Inr [(''format_version'', JInt 1),
               (''generated_at'', JInt now),
               (''version'', JStr version),
               (''git_tag'', JStr git_tag),
               (''build_count'', JInt (int (length builds))),
               (''builds'', JArr (map JObj builds))])))"

text \<open>
  What is known of \<open>list.sort\<close> whatever the keys: an empty list is sorted without a comparison,
  and a sort (of a list with one key for each element) that returns has only reordered the list.
\<close>

definition reorders :: "(json list \<Rightarrow> obj list \<Rightarrow> py_error + obj list) \<Rightarrow> bool" where
  "reorders list_sort =
     (list_sort [] [] = Inr [] \<and>
      (\<forall>keys xs ys. length keys = length xs \<longrightarrow> list_sort keys xs = Inr ys \<longrightarrow>
         mset ys = mset xs))"

text \<open>
  \<open>list.sort\<close> where every key is a str: a stable sort in ascending order of the keys. Keys of
  another kind are not covered by this instance, which answers \<open>TypeError\<close> for them.
\<close>

definition str_keys :: "json list \<Rightarrow> string list option" where
  "str_keys keys =
     (if list_all (\<lambda>k. case k of JStr s \<Rightarrow> True | _ \<Rightarrow> False) keys
      then Some (map (\<lambda>k. case k of JStr s \<Rightarrow> s | _ \<Rightarrow> []) keys) else None)"

definition list_sort_str :: "json list \<Rightarrow> obj list \<Rightarrow> py_error + obj list" where
  "list_sort_str keys xs =
     (case str_keys keys of
        None \<Rightarrow> Inl TypeError
      | Some ks \<Rightarrow> Inr (map snd (sort_key fst (zip ks xs))))"

section \<open>Notions used in the statements\<close>

text \<open>A non-empty run of digits.\<close>

definition digits :: "string \<Rightarrow> bool" where
  "digits a = (a \<noteq> [] \<and> list_all is_digit a)"

text \<open>
  The strings that the pattern \<open>^v?\d+\.\d+\.\d+$\<close> describes, written out: an optional \<open>v\<close>,
  three runs of digits separated by dots, and the end (with an optional last newline).
\<close>

definition stable_pattern :: "string \<Rightarrow> bool" where
  "stable_pattern s =
     (\<exists>p a b c e. s = p @ a @ ''.'' @ b @ ''.'' @ c @ e \<and> (p = [] \<or> p = ''v'') \<and>
        digits a \<and> digits b \<and> digits c \<and> (e = [] \<or> e = [CHR 0x0A]))"

definition contains_str :: "string \<Rightarrow> string \<Rightarrow> bool" where
  "contains_str needle s = (\<exists>p q. s = p @ needle @ q)"




text \<open>The release entries of an index document, and what an entry says of itself.\<close>

definition index_releases :: "obj \<Rightarrow> json list" where
  "index_releases index = (case map_of index ''releases'' of Some (JArr xs) \<Rightarrow> xs | _ \<Rightarrow> [])"

definition entry_field :: "string \<Rightarrow> json \<Rightarrow> json option" where
  "entry_field k e = (case e of JObj r \<Rightarrow> map_of r k | _ \<Rightarrow> None)"

definition in_channel :: "string \<Rightarrow> json \<Rightarrow> bool" where
  "in_channel ch e = (entry_field ''channel'' e = Some (JStr ch))"

text \<open>At most one entry per version: the versions that the entries carry are all different.\<close>

definition one_per_version :: "json list \<Rightarrow> bool" where
  "one_per_version es = distinct (List.map_filter (entry_field ''version'') es)"

text \<open>The url of the specification: exactly one trailing slash stripped, then one appended.\<close>

definition strip_one_slash :: "string \<Rightarrow> string" where
  "strip_one_slash s = (if s \<noteq> [] \<and> last s = CHR ''/'' then butlast s else s)"

definition spec_url :: "string \<Rightarrow> string \<Rightarrow> string" where
  "spec_url base_url filename = strip_one_slash base_url @ ''/'' @ filename"

text \<open>
  Auxiliary notions for the index updater: what \<open>set_latest\<close> stores for a channel (if
  anything), a store that may be skipped, the release list after an upsert, and the index after
  all stores.
\<close>

definition latest_of :: "string \<Rightarrow> obj list \<Rightarrow> py_error + json option" where
  "latest_of ch releases =
     (case filter (\<lambda>r. get_is r ''channel'' ch) releases of
        [] \<Rightarrow> Inr None
      | r # _ \<Rightarrow> (case map_of r ''version'' of None \<Rightarrow> Inl KeyError | Some v \<Rightarrow> Inr (Some v)))"

definition upd_opt :: "string \<Rightarrow> json option \<Rightarrow> obj \<Rightarrow> obj" where
  "upd_opt k w index = (case w of None \<Rightarrow> index | Some v \<Rightarrow> AList.update k v index)"

definition upsert_releases :: "string \<Rightarrow> obj \<Rightarrow> obj list \<Rightarrow> obj list" where
  "upsert_releases version e rs =
     sort_reverse release_key (filter (\<lambda>r. \<not> get_is r ''version'' version) rs @ [e])"

definition stored :: "int \<Rightarrow> obj list \<Rightarrow> json option \<Rightarrow> json option \<Rightarrow> json option \<Rightarrow> obj \<Rightarrow> obj" where
  "stored now rels ws wb wd index =
     upd_opt ''latest_dev'' wd (upd_opt ''latest_beta'' wb (upd_opt ''latest_stable'' ws
       (AList.update ''updated_at'' (JInt now)
         (AList.update ''releases'' (JArr (map JObj rels)) index))))"

definition new_entry_of :: "string \<Rightarrow> string \<Rightarrow> string \<Rightarrow> int \<Rightarrow> string \<Rightarrow> string \<Rightarrow> obj" where
  "new_entry_of today version git_tag build_count manifest_url s3_url =
     make_entry today version git_tag (channel_name (determine_channel version))
       build_count manifest_url s3_url"

text \<open>
  A loaded index document used in the examples: two releases, and a \<open>latest_dev\<close> field although
  no release is of channel dev. \<open>example_upserted\<close> is what upserting \<open>v1.0.0\<close> anew makes of it.
\<close>

definition example_index :: obj where
  "example_index =
     [(''format_version'', JInt 1),
      (''updated_at'', JInt 1700000000),
      (''description'', JStr ''PX4 Firmware Release Index''),
      (''releases'', JArr
         [JObj [(''version'', JStr ''v1.1.0-rc1''), (''channel'', JStr ''beta''),
                (''manifest_url'', JStr ''https://example.org/v1.1.0-rc1.json'')],
          JObj [(''version'', JStr ''v1.0.0''), (''channel'', JStr ''stable''),
                (''manifest_url'', JStr ''https://example.org/old.json'')]]),
      (''latest_stable'', JStr ''v1.0.0''),
      (''latest_beta'', JStr ''v1.1.0-rc1''),
      (''latest_dev'', JStr ''v0.9.0-alpha1'')]"

definition example_upserted :: obj where
  "example_upserted =
     [(''format_version'', JInt 1),
      (''updated_at'', JInt 1750000000),
      (''description'', JStr ''PX4 Firmware Release Index''),
      (''releases'', JArr
         [JObj [(''version'', JStr ''v1.1.0-rc1''), (''channel'', JStr ''beta''),
                (''manifest_url'', JStr ''https://example.org/v1.1.0-rc1.json'')],
          JObj [(''version'', JStr ''v1.0.0''), (''git_tag'', JStr ''v1.0.0''),
                (''release_date'', JStr ''2025-06-01''),
                (''channel'', JStr ''stable''), (''build_count'', JInt 150),
                (''manifest_url'', JStr ''https://example.org/new.json'')]]),
      (''latest_stable'', JStr ''v1.0.0''),
      (''latest_beta'', JStr ''v1.1.0-rc1''),
      (''latest_dev'', JStr ''v0.9.0-alpha1'')]"

text \<open>The files of a directory that yield metadata, in their order.\<close>

definition survivors :: "(string \<times> json option) list \<Rightarrow> (string \<times> json option) list" where
  "survivors px4_files =
     filter (\<lambda>(name, content).
       case extract_px4_metadata name content of None \<Rightarrow> False | Some md \<Rightarrow> True) px4_files"

text \<open>
  An artifact directory used in the examples: a firmware file with a board manifest, a file that
  is no JSON, a document without the required fields, and a firmware file without a manifest.
\<close>

definition example_files :: "(string \<times> json option) list" where
  "example_files =
     [(''a.px4'', Some (JObj [(''magic'', JStr ''PX4FWv1''), (''board_id'', JInt 9),
                               (''image'', JStr ''eJzt''), (''image_size'', JInt 1024),
                               (''manifest'', JObj [(''target'', JStr ''px4_fmu-v5_default'')])])),
      (''b.px4'', None),
      (''c.px4'', Some (JObj [(''board_id'', JInt 50)])),
      (''d.px4'', Some (JObj [(''magic'', JStr ''ARKFWv1''), (''board_id'', JInt 59),
                               (''image'', JStr ''eJzs'')]))]"

definition example_manifest :: obj where
  "example_manifest =
     [(''format_version'', JInt 1), (''generated_at'', JInt 1750000000),
      (''version'', JStr ''v1.15.0''), (''git_tag'', JStr ''v1.15.0''),
      (''build_count'', JInt 2),
      (''builds'', JArr
         [JObj [(''filename'', JStr ''d.px4''), (''board_id'', JInt 59),
                (''board_revision'', JInt 0), (''version'', JStr []),
                (''git_identity'', JStr []), (''git_hash'', JStr []),
                (''build_time'', JInt 0), (''image_size'', JInt 0),
                (''sha256sum'', JStr []), (''mav_autopilot'', JInt 12),
                (''url'', JStr ''https://example.org/fw/d.px4'')],
          JObj [(''filename'', JStr ''a.px4''), (''board_id'', JInt 9),
                (''board_revision'', JInt 0), (''version'', JStr []),
                (''git_identity'', JStr []), (''git_hash'', JStr []),
                (''build_time'', JInt 0), (''image_size'', JInt 1024),
                (''sha256sum'', JStr []), (''mav_autopilot'', JInt 12),
                (''manifest'', JObj [(''target'', JStr ''px4_fmu-v5_default'')]),
                (''url'', JStr ''https://example.org/fw/a.px4'')]])]"

section \<open>Matching runs of characters\<close>

lemma span_run:
  assumes "list_all P a" and "rest = [] \<or> \<not> P (hd rest)"
  shows "takeWhile P (a @ rest) = a" and "dropWhile P (a @ rest) = rest"
proof -
  have a: "\<And>x. x \<in> set a \<Longrightarrow> P x" using assms(1) by (simp add: list_all_iff)
  have r: "takeWhile P rest = []" "dropWhile P rest = rest"
    using assms(2) by (cases rest; simp)+
  show "takeWhile P (a @ rest) = a" using a r by (simp add: takeWhile_append2)
  show "dropWhile P (a @ rest) = rest" using a r by (simp add: dropWhile_append2)
qed

lemma not_digit_chars [simp]: "\<not> is_digit CHR ''.''" "\<not> is_digit (CHR 0x0A)" "\<not> is_digit CHR ''v''"
  by (simp_all add: is_digit_def)

lemma str_contains_iff: "str_contains needle s = contains_str needle s"
proof (induction s)
  case Nil
  show ?case by (auto simp: contains_str_def)
next
  case (Cons c cs)
  show ?case
  proof
    assume "str_contains needle (c # cs)"
    then consider "take (length needle) (c # cs) = needle" | "str_contains needle cs" by auto
    then show "contains_str needle (c # cs)"
    proof cases
      case 1
      then have "c # cs = [] @ needle @ drop (length needle) (c # cs)"
        by (metis append_Nil append_take_drop_id)
      then show ?thesis unfolding contains_str_def by blast
    next
      case 2
      then obtain p q where "cs = p @ needle @ q" using Cons by (auto simp: contains_str_def)
      then have "c # cs = (c # p) @ needle @ q" by simp
      then show ?thesis unfolding contains_str_def by blast
    qed
  next
    assume "contains_str needle (c # cs)"
    then obtain p q where pq: "c # cs = p @ needle @ q" by (auto simp: contains_str_def)
    show "str_contains needle (c # cs)"
    proof (cases p)
      case Nil
      then have "take (length needle) (c # cs) = needle" using pq by simp
      then show ?thesis by simp
    next
      case (Cons d p')
      then have "cs = p' @ needle @ q" using pq by simp
      then have "contains_str needle cs" unfolding contains_str_def by blast
      then show ?thesis using Cons.IH by simp
    qed
  qed
qed

lemma match_stable_complete:
  assumes "stable_pattern s" shows "match_stable s"
proof -
  from assms obtain p a b c e where s: "s = p @ a @ ''.'' @ b @ ''.'' @ c @ e"
    and p: "p = [] \<or> p = ''v''" and a: "digits a" and b: "digits b" and c: "digits c"
    and e: "e = [] \<or> e = [CHR 0x0A]"
    unfolding stable_pattern_def by blast
  let ?t = "a @ ''.'' @ b @ ''.'' @ c @ e"
  have hd_a: "hd a \<noteq> CHR ''v''" using a by (cases a) (auto simp: digits_def)
  have s0: "(case s of c # cs \<Rightarrow> if c = CHR ''v'' then cs else s | [] \<Rightarrow> s) = ?t"
    using p s a hd_a by (cases a) (auto simp: digits_def)
  have 1: "takeWhile is_digit ?t = a" "dropWhile is_digit ?t = ''.'' @ b @ ''.'' @ c @ e"
    using span_run[of is_digit a "''.'' @ b @ ''.'' @ c @ e"] a by (simp_all add: digits_def)
  have 2: "takeWhile is_digit (b @ ''.'' @ c @ e) = b" "dropWhile is_digit (b @ ''.'' @ c @ e) = ''.'' @ c @ e"
    using span_run[of is_digit b "''.'' @ c @ e"] b by (simp_all add: digits_def)
  have 3: "takeWhile is_digit (c @ e) = c" "dropWhile is_digit (c @ e) = e"
    using span_run[of is_digit c e] c e by (auto simp: digits_def)
  show ?thesis
    unfolding match_stable_def s0 Let_def using 1 2 3 a b c e
    by (auto simp: digits_def at_dollar_def)
qed

lemma match_stable_sound:
  assumes "match_stable s" shows "stable_pattern s"
proof -
  define s0 where "s0 = (case s of c # cs \<Rightarrow> if c = CHR ''v'' then cs else s | [] \<Rightarrow> s)"
  have "\<exists>p. s = p @ s0 \<and> (p = [] \<or> p = ''v'')"
  proof (cases s)
    case Nil
    then show ?thesis by (simp add: s0_def)
  next
    case (Cons c cs)
    show ?thesis
    proof (cases "c = CHR ''v''")
      case True
      then have "s = ''v'' @ s0" using Cons by (simp add: s0_def)
      then show ?thesis by blast
    next
      case False
      then have "s = [] @ s0" using Cons by (simp add: s0_def)
      then show ?thesis by blast
    qed
  qed
  then obtain p where p: "s = p @ s0" "p = [] \<or> p = ''v''" by blast
  define a where "a = takeWhile is_digit s0"
  from assms obtain s1 where r1: "dropWhile is_digit s0 = CHR ''.'' # s1" and a: "a \<noteq> []"
    and m1: "takeWhile is_digit s1 \<noteq> [] \<and> (case dropWhile is_digit s1 of [] \<Rightarrow> False | c2 # s2 \<Rightarrow> c2 = CHR ''.'' \<and>
        takeWhile is_digit s2 \<noteq> [] \<and> at_dollar (dropWhile is_digit s2))"
    unfolding match_stable_def s0_def[symmetric] a_def Let_def
    by (auto split: list.splits)
  define b where "b = takeWhile is_digit s1"
  from m1 obtain s2 where r2: "dropWhile is_digit s1 = CHR ''.'' # s2" and b: "b \<noteq> []"
    and m2: "takeWhile is_digit s2 \<noteq> []" "at_dollar (dropWhile is_digit s2)"
    unfolding b_def by (auto split: list.splits)
  define c where "c = takeWhile is_digit s2"
  define e where "e = dropWhile is_digit s2"
  have "s0 = a @ CHR ''.'' # s1" unfolding a_def using r1 by (metis takeWhile_dropWhile_id)
  moreover have "s1 = b @ CHR ''.'' # s2" unfolding b_def using r2 by (metis takeWhile_dropWhile_id)
  moreover have "s2 = c @ e" unfolding c_def e_def by simp
  ultimately have "s = p @ a @ ''.'' @ b @ ''.'' @ c @ e" using p by simp
  moreover have "digits a" "digits b" "digits c"
    using a b m2 unfolding a_def b_def c_def digits_def
    by (auto simp: list_all_iff dest: set_takeWhileD)
  moreover have "e = [] \<or> e = [CHR 0x0A]" using m2 unfolding e_def at_dollar_def by simp
  ultimately show ?thesis using p unfolding stable_pattern_def by blast
qed



section \<open>Index updater: auxiliary facts\<close>

lemma get_is_iff: "get_is d k s \<longleftrightarrow> map_of d k = Some (JStr s)"
  by (auto simp: get_is_def split: option.splits json.splits)

lemma sort_reverse_mset [simp]: "mset (sort_reverse f xs) = mset xs"
  by (simp add: sort_reverse_def)

lemma sort_reverse_set [simp]: "set (sort_reverse f xs) = set xs"
  by (simp add: sort_reverse_def)

lemma sort_reverse_length [simp]: "length (sort_reverse f xs) = length xs"
  by (simp add: sort_reverse_def)

lemma sort_reverse_filter: "filter P (sort_reverse f xs) = sort_reverse f (filter P xs)"
  by (simp add: sort_reverse_def rev_filter[symmetric] filter_sort)

lemma sort_reverse_again:
  "sort_reverse f (sort_reverse f xs @ [e]) = sort_reverse f (xs @ [e])"
proof -
  have "sort_key f (sort_key f (rev xs)) = sort_key f (rev xs)"
    by (rule sort_key_id_if_sorted) simp
  then show ?thesis by (simp add: sort_reverse_def)
qed

lemma without_version_map:
  "without_version v (map JObj rs) = Inr (filter (\<lambda>r. \<not> get_is r ''version'' v) rs)"
  by (induction rs) auto

lemma without_version_Inr:
  assumes "without_version v xs = Inr kept"
  shows "\<exists>rs. xs = map JObj rs \<and> kept = filter (\<lambda>r. \<not> get_is r ''version'' v) rs"
  using assms
proof (induction xs arbitrary: kept)
  case Nil
  then show ?case by simp
next
  case (Cons x xs)
  then obtain r where x: "x = JObj r" by (cases x) auto
  from Cons.prems x obtain kept' where k: "without_version v xs = Inr kept'"
    and kept: "kept = (if get_is r ''version'' v then kept' else r # kept')"
    by (auto split: sum.splits)
  from Cons.IH[OF k] obtain rs where "xs = map JObj rs"
    "kept' = filter (\<lambda>r. \<not> get_is r ''version'' v) rs" by blast
  then have "x # xs = map JObj (r # rs) \<and> kept = filter (\<lambda>r. \<not> get_is r ''version'' v) (r # rs)"
    using x kept by simp
  then show ?case by (rule exI[of _ "r # rs"])
qed

lemma remove_version_Inr:
  assumes "remove_version v old = Inr kept"
  shows "\<exists>rs. kept = filter (\<lambda>r. \<not> get_is r ''version'' v) rs \<and>
              (case old of JArr xs \<Rightarrow> xs = map JObj rs | _ \<Rightarrow> rs = [])"
proof (cases old)
  case (JArr xs)
  then show ?thesis using assms without_version_Inr[of v xs kept]
    by (auto simp: remove_version_def)
qed (use assms in \<open>auto simp: remove_version_def split: if_splits\<close>)

lemma set_latest_eq:
  "set_latest ch releases index =
     (case latest_of ch releases of
        Inl e \<Rightarrow> Inl e
      | Inr None \<Rightarrow> Inr index
      | Inr (Some v) \<Rightarrow> Inr (AList.update (''latest_'' @ ch) v index))"
  by (simp add: set_latest_def latest_of_def split: list.splits option.splits)

lemma map_of_upd_opt:
  "map_of (upd_opt k w al) = (case w of None \<Rightarrow> map_of al | Some v \<Rightarrow> (map_of al)(k \<mapsto> v))"
  by (simp add: upd_opt_def update_conv' split: option.splits)

lemma upd_opt_triv:
  assumes "\<And>v. w = Some v \<Longrightarrow> map_of al k = Some v"
  shows "upd_opt k w al = al"
  using assms by (cases w) (simp_all add: upd_opt_def update_triv)

lemma upd_opt_twice [simp]: "upd_opt k w (upd_opt k w al) = upd_opt k w al"
  by (cases w) (simp_all add: upd_opt_def)

lemma set_latest_upd_opt:
  "set_latest ch releases index =
     (case latest_of ch releases of Inl e \<Rightarrow> Inl e | Inr w \<Rightarrow> Inr (upd_opt (''latest_'' @ ch) w index))"
  by (simp add: set_latest_eq upd_opt_def split: sum.splits option.splits)

lemma update_index_eq:
  "update_index today now index v g n u s =
     (case map_of index ''releases'' of
        None \<Rightarrow> Inl KeyError
      | Some old \<Rightarrow>
     (case remove_version v old of
        Inl e \<Rightarrow> Inl e
      | Inr kept \<Rightarrow>
        if \<not> list_all has_sort_key (kept @ [new_entry_of today v g n u s]) then Inl AttributeError
        else
          (let rels = sort_reverse release_key (kept @ [new_entry_of today v g n u s]) in
           case latest_of ''stable'' rels of Inl e \<Rightarrow> Inl e | Inr ws \<Rightarrow>
          (case latest_of ''beta'' rels of Inl e \<Rightarrow> Inl e | Inr wb \<Rightarrow>
          (case latest_of ''dev'' rels of Inl e \<Rightarrow> Inl e | Inr wd \<Rightarrow>
             Inr (stored now rels ws wb wd index))))))"
  by (simp add: update_index_def sort_releases_def new_entry_of_def stored_def Let_def
        set_latest_upd_opt split: option.splits sum.splits)


lemma map_of_new_entry:
  "map_of (new_entry_of today v g n u s) ''version'' = Some (JStr v)"
  "map_of (new_entry_of today v g n u s) ''channel'' = Some (JStr (channel_name (determine_channel v)))"
  "map_of (new_entry_of today v g n u s) ''manifest_url'' = Some (JStr u)"
  by (simp_all add: new_entry_of_def make_entry_def Let_def update_conv')

lemma new_entry_facts:
  "get_is (new_entry_of today v g n u s) ''version'' v"
  "has_sort_key (new_entry_of today v g n u s)"
  by (simp_all add: get_is_iff has_sort_key_def map_of_new_entry)

lemma map_of_stored:
  "map_of (stored now rels ws wb wd index) k =
     (if k = ''latest_dev'' \<and> wd \<noteq> None then wd
      else if k = ''latest_beta'' \<and> wb \<noteq> None then wb
      else if k = ''latest_stable'' \<and> ws \<noteq> None then ws
      else if k = ''updated_at'' then Some (JInt now)
      else if k = ''releases'' then Some (JArr (map JObj rels))
      else map_of index k)"
  by (auto simp: stored_def map_of_upd_opt update_conv' split: option.splits)

lemma stored_again:
  "stored now rels ws wb wd (stored now rels ws wb wd index) = stored now rels ws wb wd index"
proof -
  let ?i = "stored now rels ws wb wd index"
  have 1: "AList.update ''releases'' (JArr (map JObj rels)) ?i = ?i"
    by (rule update_triv) (simp add: map_of_stored)
  have 2: "AList.update ''updated_at'' (JInt now) ?i = ?i"
    by (rule update_triv) (simp add: map_of_stored)
  have 3: "upd_opt ''latest_stable'' ws ?i = ?i"
    by (rule upd_opt_triv) (simp add: map_of_stored)
  have 4: "upd_opt ''latest_beta'' wb ?i = ?i"
    by (rule upd_opt_triv) (simp add: map_of_stored)
  have 5: "upd_opt ''latest_dev'' wd ?i = ?i"
    by (rule upd_opt_triv) (simp add: map_of_stored)
  have "stored now rels ws wb wd ?i =
          upd_opt ''latest_dev'' wd (upd_opt ''latest_beta'' wb (upd_opt ''latest_stable'' ws
            (AList.update ''updated_at'' (JInt now)
              (AList.update ''releases'' (JArr (map JObj rels)) ?i))))"
    by (simp only: stored_def[of now rels ws wb wd ?i])
  also have "\<dots> = ?i" by (simp only: 1 2 3 4 5)
  finally show ?thesis .
qed

text \<open>The shape of every result of \<open>update_index\<close>.\<close>

lemma update_index_InrD:
  assumes "update_index today now index v g n u s = Inr index'"
  shows "\<exists>old rs ws wb wd.
           map_of index ''releases'' = Some old \<and>
           (case old of JArr xs \<Rightarrow> xs = map JObj rs | _ \<Rightarrow> rs = []) \<and>
           list_all has_sort_key (filter (\<lambda>r. \<not> get_is r ''version'' v) rs) \<and>
           latest_of ''stable'' (upsert_releases v (new_entry_of today v g n u s) rs) = Inr ws \<and>
           latest_of ''beta'' (upsert_releases v (new_entry_of today v g n u s) rs) = Inr wb \<and>
           latest_of ''dev'' (upsert_releases v (new_entry_of today v g n u s) rs) = Inr wd \<and>
           index' = stored now (upsert_releases v (new_entry_of today v g n u s) rs) ws wb wd index"
proof -
  let ?E = "new_entry_of today v g n u s"
  from assms obtain old where old: "map_of index ''releases'' = Some old"
    by (auto simp: update_index_eq split: option.splits)
  from assms old obtain kept where kept: "remove_version v old = Inr kept"
    by (auto simp: update_index_eq split: sum.splits)
  from remove_version_Inr[OF kept] obtain rs where
    rs: "kept = filter (\<lambda>r. \<not> get_is r ''version'' v) rs"
        "(case old of JArr xs \<Rightarrow> xs = map JObj rs | _ \<Rightarrow> rs = [])" by blast
  have rels: "sort_reverse release_key (kept @ [?E]) = upsert_releases v ?E rs"
    by (simp add: upsert_releases_def rs(1))
  from assms old kept have sk: "list_all has_sort_key (kept @ [?E])"
    by (auto simp: update_index_eq split: if_splits)
  from assms old kept sk obtain ws wb wd where
    "latest_of ''stable'' (upsert_releases v ?E rs) = Inr ws"
    "latest_of ''beta'' (upsert_releases v ?E rs) = Inr wb"
    "latest_of ''dev'' (upsert_releases v ?E rs) = Inr wd"
    "index' = stored now (upsert_releases v ?E rs) ws wb wd index"
    by (auto simp: update_index_eq Let_def rels split: sum.splits)
  with old rs sk show ?thesis by auto
qed

lemma upsert_releases_again:
  "upsert_releases v (new_entry_of today v g n u s)
     (upsert_releases v (new_entry_of today v g n u s) rs) =
   upsert_releases v (new_entry_of today v g n u s) rs"
proof -
  let ?E = "new_entry_of today v g n u s"
  let ?P = "\<lambda>r. \<not> get_is r ''version'' v"
  have "filter ?P (upsert_releases v ?E rs) = sort_reverse release_key (filter ?P rs)"
    by (simp add: upsert_releases_def sort_reverse_filter new_entry_facts)
  then show ?thesis
    by (simp add: upsert_releases_def[of v ?E "upsert_releases v ?E rs"] sort_reverse_again)
       (simp add: upsert_releases_def)
qed

lemma update_index_fixed:
  assumes "update_index today now index v g n u s = Inr index'"
  shows "update_index today now index' v g n u s = Inr index'"
proof -
  let ?E = "new_entry_of today v g n u s"
  let ?P = "\<lambda>r. \<not> get_is r ''version'' v"
  from update_index_InrD[OF assms] obtain rs ws wb wd where
    sk: "list_all has_sort_key (filter ?P rs)" and
    l: "latest_of ''stable'' (upsert_releases v ?E rs) = Inr ws"
       "latest_of ''beta'' (upsert_releases v ?E rs) = Inr wb"
       "latest_of ''dev'' (upsert_releases v ?E rs) = Inr wd" and
    i: "index' = stored now (upsert_releases v ?E rs) ws wb wd index" by blast
  let ?R = "upsert_releases v ?E rs"
  have 1: "map_of index' ''releases'' = Some (JArr (map JObj ?R))"
    by (simp add: i map_of_stored)
  have 2: "remove_version v (JArr (map JObj ?R)) = Inr (filter ?P ?R)"
    by (simp add: remove_version_def without_version_map)
  have 3: "sort_reverse release_key (filter ?P ?R @ [?E]) = ?R"
    using upsert_releases_again[of v today g n u s rs]
    by (simp add: upsert_releases_def[of v ?E ?R])
  have "filter ?P ?R = sort_reverse release_key (filter ?P rs)"
    by (simp add: upsert_releases_def sort_reverse_filter new_entry_facts)
  then have 4: "list_all has_sort_key (filter ?P ?R @ [?E])"
    using sk by (simp add: list_all_iff new_entry_facts)
  have "update_index today now index' v g n u s = Inr (stored now ?R ws wb wd index')"
    by (simp add: update_index_eq[of today now index'] 1 2 3 4 l del: list_all_append)
  then show ?thesis by (simp add: i stored_again)
qed


lemma index_releases_result:
  assumes "update_index today now index v g n u s = Inr index'"
  shows "\<exists>rs. index_releases index = map JObj rs \<and>
              index_releases index' = map JObj (upsert_releases v (new_entry_of today v g n u s) rs)"
proof -
  from update_index_InrD[OF assms] obtain old rs ws wb wd where
    old: "map_of index ''releases'' = Some old"
      "(case old of JArr xs \<Rightarrow> xs = map JObj rs | _ \<Rightarrow> rs = [])" and
    i: "index' = stored now (upsert_releases v (new_entry_of today v g n u s) rs) ws wb wd index"
    by blast
  have "index_releases index = map JObj rs"
    using old by (cases old) (simp_all add: index_releases_def)
  moreover have "index_releases index' =
      map JObj (upsert_releases v (new_entry_of today v g n u s) rs)"
    by (simp add: index_releases_def i map_of_stored)
  ultimately show ?thesis by blast
qed

lemma filter_in_channel:
  "filter (in_channel ch) (map JObj rs) = map JObj (filter (\<lambda>r. get_is r ''channel'' ch) rs)"
  by (induction rs) (simp_all add: in_channel_def entry_field_def get_is_iff)

lemma latest_of_cases:
  assumes "latest_of ch rs = Inr w"
  shows "(case filter (in_channel ch) (map JObj rs) of
            [] \<Rightarrow> w = None
          | e # _ \<Rightarrow> w = entry_field ''version'' e \<and> w \<noteq> None)"
proof (cases "filter (\<lambda>r. get_is r ''channel'' ch) rs")
  case Nil
  then show ?thesis using assms by (simp add: filter_in_channel latest_of_def)
next
  case (Cons r rest)
  then show ?thesis using assms
    by (cases "map_of r ''version''") (auto simp: filter_in_channel latest_of_def entry_field_def)
qed



lemma parse_examples:
  "parse_version_tuple ''v1.0.0'' = (1, 0, 0, ''zzz'', 0)"
  "parse_version_tuple ''v1.1.0-rc1'' = (1, 1, 0, ''rc'', 1)"
  "parse_version_tuple ''v1.2.0'' = (1, 2, 0, ''zzz'', 0)"
  "parse_version_tuple ''v1.15.0'' = (1, 15, 0, ''zzz'', 0)"
  by code_simp+

lemma channel_examples:
  "determine_channel ''v1.2.0'' = Stable" "determine_channel ''v1.15.0'' = Stable"
  by code_simp+

lemma sort_three:
  fixes f :: "'a \<Rightarrow> version_tuple"
  assumes "f a = (1, 0, 0, ''zzz'', 0)" "f b = (1, 1, 0, ''rc'', 1)" "f e = (1, 2, 0, ''zzz'', 0)"
  shows "sort_reverse f [a, b, e] = [e, b, a]" "sort_reverse f [b, a, e] = [e, b, a]"
  using assms by (simp_all add: sort_reverse_def)



lemma map_filter_entries:
  "List.map_filter (entry_field k) (map JObj rs) = List.map_filter (\<lambda>r. map_of r k) rs"
  by (induction rs) (simp_all add: entry_field_def split: option.splits)

lemma set_map_filter: "set (List.map_filter f xs) = {y. \<exists>x\<in>set xs. f x = Some y}"
  by (induction xs) (auto split: option.splits)

lemma mset_map_filter:
  "mset (List.map_filter f xs) = image_mset (the \<circ> f) (filter_mset (\<lambda>x. f x \<noteq> None) (mset xs))"
  by (simp add: List.map_filter_def)

lemma distinct_map_filter_cong:
  assumes "mset xs = mset ys"
  shows "distinct (List.map_filter f xs) = distinct (List.map_filter f ys)"
proof -
  have "mset (List.map_filter f xs) = mset (List.map_filter f ys)"
    by (simp add: mset_map_filter assms)
  then show ?thesis by (metis distinct_count_atmost_1 set_mset_mset)
qed

lemma distinct_map_filter_filter:
  "distinct (List.map_filter f xs) \<Longrightarrow> distinct (List.map_filter f (filter P xs))"
  by (induction xs) (auto simp: set_map_filter split: option.splits)

lemma one_per_version_upsert:
  assumes "distinct (List.map_filter (\<lambda>r. map_of r ''version'') rs)"
    and "map_of e ''version'' = Some (JStr v)"
  shows "distinct (List.map_filter (\<lambda>r. map_of r ''version'') (upsert_releases v e rs))"
proof -
  let ?f = "\<lambda>r. map_of r ''version''"
  let ?K = "filter (\<lambda>r. \<not> get_is r ''version'' v) rs"
  have "mset (upsert_releases v e rs) = mset (e # ?K)"
    by (simp add: upsert_releases_def)
  then have "distinct (List.map_filter ?f (upsert_releases v e rs)) =
             distinct (List.map_filter ?f (e # ?K))"
    by (rule distinct_map_filter_cong)
  moreover have "JStr v \<notin> set (List.map_filter ?f ?K)"
    by (auto simp: set_map_filter get_is_iff)
  moreover have "distinct (List.map_filter ?f ?K)"
    using assms(1) by (rule distinct_map_filter_filter)
  ultimately show ?thesis using assms(2) by simp
qed

lemma length_upsert_present:
  assumes "distinct (List.map_filter (\<lambda>r. map_of r ''version'') rs)"
    and "\<exists>r\<in>set rs. map_of r ''version'' = Some (JStr v)"
  shows "length (upsert_releases v e rs) = length rs"
proof -
  let ?Q = "\<lambda>r. get_is r ''version'' v"
  have "length (filter ?Q rs) \<le> 1"
    using assms(1)
  proof (induction rs)
    case Nil
    then show ?case by simp
  next
    case (Cons r rs)
    show ?case
    proof (cases "?Q r")
      case True
      then have "JStr v \<notin> set (List.map_filter (\<lambda>r. map_of r ''version'') rs)"
        using Cons.prems by (simp add: get_is_iff)
      then have "filter ?Q rs = []"
        by (auto simp: set_map_filter get_is_iff filter_empty_conv)
      then show ?thesis using True by simp
    next
      case False
      then show ?thesis using Cons
        by (auto split: option.splits)
    qed
  qed
  moreover have "filter ?Q rs \<noteq> []"
    using assms(2) by (auto simp: filter_empty_conv get_is_iff)
  ultimately have "length (filter ?Q rs) = 1"
    by (cases "filter ?Q rs") auto
  moreover have "length rs = length (filter ?Q rs) + length (filter (\<lambda>r. \<not> ?Q r) rs)"
    by (rule sum_length_filter_compl[symmetric])
  ultimately show ?thesis by (simp add: upsert_releases_def)
qed

lemma length_upsert_absent:
  assumes "\<not> (\<exists>r\<in>set rs. map_of r ''version'' = Some (JStr v))"
  shows "length (upsert_releases v e rs) = length rs + 1"
proof -
  have "filter (\<lambda>r. \<not> get_is r ''version'' v) rs = rs"
    using assms by (auto simp: get_is_iff filter_id_conv)
  then show ?thesis by (simp add: upsert_releases_def)
qed

lemma upserted_entry:
  assumes "map_of e ''version'' = Some (JStr v)"
  shows "filter (\<lambda>r. map_of r ''version'' = Some (JStr v)) (upsert_releases v e rs) = [e]"
proof -
  have "filter (\<lambda>r. map_of r ''version'' = Some (JStr v))
          (filter (\<lambda>r. \<not> get_is r ''version'' v) rs) = []"
    by (auto simp: filter_empty_conv get_is_iff)
  then have "filter (\<lambda>r. map_of r ''version'' = Some (JStr v))
          (filter (\<lambda>r. \<not> get_is r ''version'' v) rs @ [e]) = [e]"
    using assms by simp
  then have "filter (\<lambda>r. map_of r ''version'' = Some (JStr v)) (upsert_releases v e rs) =
          sort_reverse release_key [e]"
    by (simp only: upsert_releases_def sort_reverse_filter)
  then show ?thesis by (simp add: sort_reverse_def)
qed

lemma filter_entries:
  "filter (\<lambda>e. entry_field k e = w) (map JObj rs) = map JObj (filter (\<lambda>r. map_of r k = w) rs)"
  by (induction rs) (simp_all add: entry_field_def)


text \<open>The example upsert, evaluated.\<close>


lemma example_run:
  "update_index ''2025-06-01'' 1750000000 example_index ''v1.0.0'' ''v1.0.0'' 150
     ''https://example.org/new.json'' [] = Inr example_upserted"
  by code_simp




section \<open>Version parsing: auxiliary facts\<close>








lemma dropWhile_head: "dropWhile P xs = [] \<or> \<not> P (hd (dropWhile P xs))"
  by (induction xs) auto




lemma sort_key_unique:
  fixes f :: "'a \<Rightarrow> 'k::linorder"
  assumes "mset xs = mset ys" "sorted (map f ys)" "distinct (map f ys)"
  shows "sort_key f xs = ys"
proof -
  let ?zs = "sort_key f xs"
  have m: "mset ?zs = mset ys" using assms(1) by simp
  then have mm: "mset (map f ?zs) = mset (map f ys)" by simp
  have dz: "distinct (map f ?zs)"
    using mm assms(3) mset_eq_imp_distinct_iff by blast
  have "set (map f ?zs) = set (map f ys)" using mm mset_eq_setD by blast
  then have e: "map f ?zs = map f ys"
    using dz assms(2,3) by (intro sorted_distinct_set_unique) simp_all
  have "set ?zs = set ys" using m mset_eq_setD by blast
  moreover have "inj_on f (set ys)" using assms(3) by (simp add: distinct_map)
  ultimately have "inj_on f (set ?zs \<union> set ys)" by simp
  then show ?thesis using e inj_on_map_eq_map by blast
qed

lemma parse_five:
  "parse_version_tuple ''v1.15.0'' = (1, 15, 0, ''zzz'', 0)"
  "parse_version_tuple ''v1.15.0-rc1'' = (1, 15, 0, ''rc'', 1)"
  "parse_version_tuple ''v1.15.0-beta2'' = (1, 15, 0, ''beta'', 2)"
  "parse_version_tuple ''v1.15.0-alpha1'' = (1, 15, 0, ''alpha'', 1)"
  "parse_version_tuple ''v1.14.0'' = (1, 14, 0, ''zzz'', 0)"
  by code_simp+


section \<open>Manifest builder: auxiliary facts\<close>

lemma extract_px4_metadata_Some:
  assumes "extract_px4_metadata name content = Some metadata"
  shows "map_of metadata ''filename'' = Some (JStr name)" "map_of metadata ''url'' = None"
    "metadata \<noteq> []"
  using assms
  by (auto simp: extract_px4_metadata_def Let_def update_conv'
      split: option.splits json.splits if_splits)

text \<open>
  The loop never raises: it returns one entry for each file that yields metadata, in the order
  of the files, carrying the file's name and (when asked for) its url.
\<close>

lemma collect_builds_Inr:
  "\<exists>builds. collect_builds base_url px4_files = Inr builds \<and>
     map (\<lambda>b. map_of b ''filename'') builds =
       map (\<lambda>(n, c). Some (JStr n)) (survivors px4_files) \<and>
     (\<forall>b\<in>set builds. \<exists>name.
        map_of b ''filename'' = Some (JStr name) \<and>
        map_of b ''url'' =
          (if base_url = [] then None else Some (JStr (rstrip_slash base_url @ ''/'' @ name))))"
proof (induction px4_files)
  case Nil
  then show ?case by (simp add: survivors_def)
next
  case (Cons f fs)
  obtain name content where f: "f = (name, content)" by (cases f)
  from Cons obtain builds where b: "collect_builds base_url fs = Inr builds"
    "map (\<lambda>b. map_of b ''filename'') builds = map (\<lambda>(n, c). Some (JStr n)) (survivors fs)"
    "\<forall>b\<in>set builds. \<exists>name.
        map_of b ''filename'' = Some (JStr name) \<and>
        map_of b ''url'' =
          (if base_url = [] then None else Some (JStr (rstrip_slash base_url @ ''/'' @ name)))"
    by auto
  show ?case
  proof (cases "extract_px4_metadata name content")
    case None
    then have "collect_builds base_url (f # fs) = Inr builds" "survivors (f # fs) = survivors fs"
      using b(1) f by (simp_all add: survivors_def)
    then show ?thesis using b(2,3) by simp
  next
    case (Some metadata)
    note md = extract_px4_metadata_Some[OF Some]
    have sv: "survivors (f # fs) = f # survivors fs"
      using Some f by (simp add: survivors_def)
    show ?thesis
    proof (cases "base_url = []")
      case True
      then have "collect_builds base_url (f # fs) = Inr (metadata # builds)"
        using Some md b(1) f by simp
      then show ?thesis using md b(2,3) f True sv by simp
    next
      case False
      define e where "e = AList.update ''url'' (JStr (rstrip_slash base_url @ ''/'' @ name)) metadata"
      have c: "collect_builds base_url (f # fs) = Inr (e # builds)"
        using Some md b(1) f False by (simp add: e_def)
      have e: "map_of e ''filename'' = Some (JStr name)"
        "map_of e ''url'' = Some (JStr (rstrip_slash base_url @ ''/'' @ name))"
        using md by (simp_all add: e_def update_conv')
      show ?thesis using c e b(2,3) f False sv by simp
    qed
  qed
qed

lemma build_keys_length: "build_keys bs = Inr ks \<Longrightarrow> length ks = length bs"
  by (induction bs arbitrary: ks) (auto split: sum.splits)

lemma reorders_empty: "reorders list_sort \<Longrightarrow> list_sort [] [] = Inr []"
  by (simp add: reorders_def)

lemma reorders_mset:
  "reorders list_sort \<Longrightarrow> length keys = length xs \<Longrightarrow> list_sort keys xs = Inr ys \<Longrightarrow>
   mset ys = mset xs"
  by (simp add: reorders_def)

lemma str_keys_length: "str_keys keys = Some ks \<Longrightarrow> length ks = length keys"
  by (auto simp: str_keys_def split: if_splits)

lemma reorders_list_sort_str: "reorders list_sort_str"
  unfolding reorders_def
proof (intro conjI allI impI)
  show "list_sort_str [] [] = Inr []"
    by (simp add: list_sort_str_def str_keys_def)
next
  fix keys xs ys
  assume l: "length keys = length xs" and r: "list_sort_str keys xs = Inr ys"
  from r obtain ks where ks: "str_keys keys = Some ks"
    and ys: "ys = map snd (sort_key fst (zip ks xs))"
    by (auto simp: list_sort_str_def split: option.splits)
  have "length ks = length xs" using str_keys_length[OF ks] l by simp
  then have "map snd (zip ks xs) = xs" by simp
  moreover have "mset ys = mset (map snd (zip ks xs))" by (simp add: ys)
  ultimately show "mset ys = mset xs" by simp
qed

text \<open>The shape of every manifest that \<open>generate_release_manifest\<close> returns.\<close>

lemma generate_release_manifest_InrD:
  assumes "reorders list_sort"
    and "generate_release_manifest list_sort now px4_files version git_tag base_url = Inr m"
  shows "\<exists>builds0 builds.
           collect_builds base_url px4_files = Inr builds0 \<and> mset builds = mset builds0 \<and>
           m = [(''format_version'', JInt 1), (''generated_at'', JInt now),
                (''version'', JStr version), (''git_tag'', JStr git_tag),
                (''build_count'', JInt (int (length builds))),
                (''builds'', JArr (map JObj builds))]"
proof -
  from assms(2) obtain builds0 where
    c: "collect_builds base_url px4_files = Inr builds0"
    by (cases "collect_builds base_url px4_files")
       (simp_all add: generate_release_manifest_def)
  from assms(2) c obtain keys where k: "build_keys builds0 = Inr keys"
    by (cases "build_keys builds0") (simp_all add: generate_release_manifest_def)
  from assms(2) c k obtain builds where s: "list_sort keys builds0 = Inr builds"
    by (cases "list_sort keys builds0") (simp_all add: generate_release_manifest_def)
  have m: "m = [(''format_version'', JInt 1), (''generated_at'', JInt now),
             (''version'', JStr version), (''git_tag'', JStr git_tag),
             (''build_count'', JInt (int (length builds))),
             (''builds'', JArr (map JObj builds))]"
    using assms(2) c k s by (simp add: generate_release_manifest_def)
  have "length keys = length builds0" using k by (rule build_keys_length)
  then have "mset builds = mset builds0" using s by (rule reorders_mset[OF assms(1)])
  then show ?thesis
    by (intro exI[of _ builds0] exI[of _ builds]) (simp add: c m)
qed

lemma rstrip_slash_decomp: "\<exists>k. s = rstrip_slash s @ replicate k CHR ''/''"
proof -
  define t where "t = rev (takeWhile (\<lambda>c. c = CHR ''/'') (rev s))"
  have "rev (takeWhile (\<lambda>c. c = CHR ''/'') (rev s) @ dropWhile (\<lambda>c. c = CHR ''/'') (rev s)) =
      rev (rev s)"
    by (simp only: takeWhile_dropWhile_id)
  then have "rev (dropWhile (\<lambda>c. c = CHR ''/'') (rev s)) @
      rev (takeWhile (\<lambda>c. c = CHR ''/'') (rev s)) = s"
    by (simp only: rev_append rev_rev_ident)
  then have s: "s = rstrip_slash s @ t"
    by (simp only: rstrip_slash_def t_def)
  have "\<forall>c\<in>set t. c = CHR ''/''"
    unfolding t_def by (auto dest: set_takeWhileD)
  then have "replicate (length t) CHR ''/'' = t"
    by (rule replicate_length_same)
  then have "s = rstrip_slash s @ replicate (length t) CHR ''/''" using s by simp
  then show ?thesis by (rule exI)
qed

lemma rstrip_slash_last: "rstrip_slash s = [] \<or> last (rstrip_slash s) \<noteq> CHR ''/''"
proof (cases "dropWhile (\<lambda>c. c = CHR ''/'') (rev s)")
  case Nil
  then show ?thesis by (simp add: rstrip_slash_def)
next
  case (Cons c cs)
  have "\<not> (hd (dropWhile (\<lambda>c. c = CHR ''/'') (rev s)) = CHR ''/'')"
    using dropWhile_head[of "\<lambda>c. c = CHR ''/''" "rev s"] Cons by simp
  then have "c \<noteq> CHR ''/''" using Cons by simp
  then show ?thesis using Cons by (simp add: rstrip_slash_def)
qed

lemma rstrip_slash_one:
  assumes "\<not> (\<exists>p. s = p @ ''//'')"
  shows "rstrip_slash s = strip_one_slash s"
proof (cases "rev s")
  case Nil
  then show ?thesis by (simp add: rstrip_slash_def strip_one_slash_def)
next
  case (Cons c cs)
  then have "rev (rev s) = rev (c # cs)" by (rule arg_cong)
  then have s: "s = rev cs @ [c]" by simp
  show ?thesis
  proof (cases "c = CHR ''/''")
    case False
    then show ?thesis using Cons s by (simp add: rstrip_slash_def strip_one_slash_def)
  next
    case True
    have "cs = [] \<or> hd cs \<noteq> CHR ''/''"
    proof (rule ccontr)
      assume "\<not> (cs = [] \<or> hd cs \<noteq> CHR ''/'')"
      then obtain ds where "cs = CHR ''/'' # ds" by (cases cs) auto
      then have "s = rev ds @ ''//''" using s True by simp
      then have "\<exists>p. s = p @ ''//''" by (rule exI)
      with assms show False by simp
    qed
    then have "dropWhile (\<lambda>c. c = CHR ''/'') cs = cs" by (cases cs) auto
    then show ?thesis using Cons s True by (simp add: rstrip_slash_def strip_one_slash_def)
  qed
qed

text \<open>The example directory, evaluated.\<close>

lemma example_manifest_run:
  "generate_release_manifest list_sort_str 1750000000 example_files ''v1.15.0'' ''v1.15.0''
     ''https://example.org/fw/'' = Inr example_manifest"
  by code_simp

section \<open>Channel classification: properties\<close>

text \<open>
  C5. \<open>determine_channel\<close> maps \<open>v1.15.0\<close> to stable, \<open>v1.15.0-rc1\<close> and \<open>v1.15.0-beta3\<close> to
  beta, \<open>v1.15.0-alpha1\<close>, \<open>v1.15.0-dev7\<close> and \<open>garbage\<close> to dev. In general a string of the
  pattern \<open>^v?\d+\.\d+\.\d+$\<close> is stable; otherwise one whose lower-cased form contains
  \<open>-beta\<close> or \<open>-rc\<close> is beta; every other string is dev.
\<close>

theorem determine_channel_rule:
  "determine_channel ''v1.15.0'' = Stable \<and>
   determine_channel ''v1.15.0-rc1'' = Beta \<and>
   determine_channel ''v1.15.0-beta3'' = Beta \<and>
   determine_channel ''v1.15.0-alpha1'' = Dev \<and>
   determine_channel ''v1.15.0-dev7'' = Dev \<and>
   determine_channel ''garbage'' = Dev \<and>
   (\<forall>s. determine_channel s =
          (if stable_pattern s then Stable
           else if contains_str ''-beta'' (lower s) \<or> contains_str ''-rc'' (lower s) then Beta
           else Dev))"
proof -
  have ex: "determine_channel ''v1.15.0'' = Stable" "determine_channel ''v1.15.0-rc1'' = Beta"
    "determine_channel ''v1.15.0-beta3'' = Beta" "determine_channel ''v1.15.0-alpha1'' = Dev"
    "determine_channel ''v1.15.0-dev7'' = Dev" "determine_channel ''garbage'' = Dev"
    by code_simp+
  have "match_stable s = stable_pattern s" for s
    using match_stable_sound match_stable_complete by blast
  then have "determine_channel s =
          (if stable_pattern s then Stable
           else if contains_str ''-beta'' (lower s) \<or> contains_str ''-rc'' (lower s) then Beta
           else Dev)" for s
    by (simp add: determine_channel_def str_contains_iff)
  with ex show ?thesis by blast
qed


theorem determine_channel_rule_witness:
  "stable_pattern ''v2.0.1'' \<and> determine_channel ''v2.0.1'' = Stable \<and>
   \<not> stable_pattern ''v2.0.1-RC3'' \<and> contains_str ''-rc'' (lower ''v2.0.1-RC3'') \<and>
   determine_channel ''v2.0.1-RC3'' = Beta"
proof -
  have 1: "determine_channel ''v2.0.1'' = Stable" by code_simp
  have 2: "determine_channel ''v2.0.1-RC3'' = Beta" by code_simp
  have r: "\<And>s. determine_channel s =
          (if stable_pattern s then Stable
           else if contains_str ''-beta'' (lower s) \<or> contains_str ''-rc'' (lower s) then Beta
           else Dev)" using determine_channel_rule by blast
  have a: "stable_pattern ''v2.0.1''" using 1 r[of "''v2.0.1''"] by (auto split: if_splits)
  have b: "\<not> stable_pattern ''v2.0.1-RC3''" using 2 r[of "''v2.0.1-RC3''"] by (auto split: if_splits)
  have "str_contains ''-rc'' (lower ''v2.0.1-RC3'')" by code_simp
  then have c: "contains_str ''-rc'' (lower ''v2.0.1-RC3'')" by (simp add: str_contains_iff)
  show ?thesis using 1 2 a b c by blast
qed

section \<open>Version parsing: properties\<close>







text \<open>
  The five version strings of the specification's example, given in any order, sort to
  \<open>v1.15.0\<close>, \<open>v1.15.0-rc1\<close>, \<open>v1.15.0-beta2\<close>, \<open>v1.15.0-alpha1\<close>, \<open>v1.14.0\<close>.
\<close>

lemma sort_five_versions:
  assumes "mset xs =
     mset [''v1.15.0'', ''v1.15.0-rc1'', ''v1.15.0-beta2'', ''v1.15.0-alpha1'', ''v1.14.0'']"
  shows "sort_reverse parse_version_tuple xs =
     [''v1.15.0'', ''v1.15.0-rc1'', ''v1.15.0-beta2'', ''v1.15.0-alpha1'', ''v1.14.0'']"
proof -
  let ?ys = "[''v1.14.0'', ''v1.15.0-alpha1'', ''v1.15.0-beta2'', ''v1.15.0-rc1'', ''v1.15.0'']"
  have m: "mset (rev xs) = mset ?ys" using assms by simp
  have s: "sorted (map parse_version_tuple ?ys)" by (simp add: parse_five)
  have d: "distinct (map parse_version_tuple ?ys)" by (simp add: parse_five)
  have "sort_key parse_version_tuple (rev xs) = ?ys"
    using m s d by (rule sort_key_unique)
  then show ?thesis by (simp add: sort_reverse_def)
qed

text \<open>
  C4. The order of the five strings is as claimed (\<open>sort_five_versions\<close>), but a stable release
  does not rank above every lettered prerelease of the same MAJOR.MINOR.PATCH: the stable tag is
  the string \<open>zzz\<close>, and \<open>v1.15.0-zzzz1\<close>, a prerelease of \<open>1.15.0\<close> with the tag \<open>zzzz\<close>,
  gets the greater tuple and is sorted before \<open>v1.15.0\<close>.
\<close>

theorem version_order_failing_input:
  "sort_reverse parse_version_tuple
     [''v1.15.0'', ''v1.15.0-rc1'', ''v1.15.0-beta2'', ''v1.15.0-alpha1'', ''v1.14.0''] =
     [''v1.15.0'', ''v1.15.0-rc1'', ''v1.15.0-beta2'', ''v1.15.0-alpha1'', ''v1.14.0''] \<and>
   parse_version_tuple ''v1.15.0'' = (1, 15, 0, ''zzz'', 0) \<and>
   parse_version_tuple ''v1.15.0-zzzz1'' = (1, 15, 0, ''zzzz'', 1) \<and>
   parse_version_tuple ''v1.15.0'' < parse_version_tuple ''v1.15.0-zzzz1'' \<and>
   sort_reverse parse_version_tuple [''v1.15.0'', ''v1.15.0-zzzz1''] =
     [''v1.15.0-zzzz1'', ''v1.15.0'']"
  by code_simp

text \<open>
  The sentinel is not the least tuple: the well-formed \<open>v0.0.0-alpha1\<close> gets a smaller one, and
  the unparseable \<open>garbage\<close> is sorted before it.
\<close>

lemma sentinel_not_least:
  "parse_version_tuple ''v0.0.0-alpha1'' < parse_version_tuple ''garbage'' \<and>
   sort_reverse parse_version_tuple [''v0.0.0-alpha1'', ''garbage''] = [''garbage'', ''v0.0.0-alpha1'']"
  by code_simp

section \<open>Index updater: properties\<close>

text \<open>
  C2. Upsert is idempotent: with the clock readings held fixed, applying the same release entry
  a second time to the result of the first application gives that result again (and when the
  first application raises, so does the whole expression, with the same exception).
\<close>

theorem upsert_idempotent:
  "(case update_index today now index v g n u s of
      Inl e \<Rightarrow> Inl e
    | Inr index' \<Rightarrow> update_index today now index' v g n u s) =
   update_index today now index v g n u s"
  by (cases "update_index today now index v g n u s") (simp_all add: update_index_fixed)

text \<open>
  C10. Upsert changes only \<open>releases\<close>, \<open>updated_at\<close> and the three \<open>latest_*\<close> fields: every
  other top-level field of the input index is found unchanged in the result, and no other field
  appears.
\<close>

theorem upsert_frame:
  assumes "update_index today now index v g n u s = Inr index'"
    and "k \<notin> {''releases'', ''updated_at'', ''latest_stable'', ''latest_beta'', ''latest_dev''}"
  shows "map_of index' k = map_of index k"
proof -
  from update_index_InrD[OF assms(1)] obtain rs ws wb wd where
    "index' = stored now (upsert_releases v (new_entry_of today v g n u s) rs) ws wb wd index"
    by blast
  then show ?thesis using assms(2) by (simp add: map_of_stored)
qed

text \<open>
  C1, as the code has it. After Upsert, for each of the channels stable, beta and dev: when the
  result has a release of that channel, the \<open>latest_*\<close> field is the version of the first such
  release in the sorted list; when it has none, the field is left as the input index had it
  (absent if it was absent there, kept if it was present).
\<close>

theorem upsert_latest:
  assumes "update_index today now index v g n u s = Inr index'"
    and "ch \<in> {''stable'', ''beta'', ''dev''}"
  shows "(case filter (in_channel ch) (index_releases index') of
            [] \<Rightarrow> map_of index' (''latest_'' @ ch) = map_of index (''latest_'' @ ch)
          | e # _ \<Rightarrow> map_of index' (''latest_'' @ ch) = entry_field ''version'' e \<and>
                     entry_field ''version'' e \<noteq> None)"
proof -
  let ?R = "upsert_releases v (new_entry_of today v g n u s)"
  from update_index_InrD[OF assms(1)] obtain rs ws wb wd where
    l: "latest_of ''stable'' (?R rs) = Inr ws" "latest_of ''beta'' (?R rs) = Inr wb"
       "latest_of ''dev'' (?R rs) = Inr wd" and
    i: "index' = stored now (?R rs) ws wb wd index" by blast
  have r: "index_releases index' = map JObj (?R rs)"
    by (simp add: index_releases_def i map_of_stored)
  from assms(2) consider "ch = ''stable''" | "ch = ''beta''" | "ch = ''dev''" by auto
  then show ?thesis
  proof cases
    case 1
    show ?thesis using latest_of_cases[OF l(1)] unfolding r 1
      by (cases "filter (in_channel ''stable'') (map JObj (?R rs))")
         (auto simp: i map_of_stored)
  next
    case 2
    show ?thesis using latest_of_cases[OF l(2)] unfolding r 2
      by (cases "filter (in_channel ''beta'') (map JObj (?R rs))")
         (auto simp: i map_of_stored)
  next
    case 3
    show ?thesis using latest_of_cases[OF l(3)] unfolding r 3
      by (cases "filter (in_channel ''dev'') (map JObj (?R rs))")
         (auto simp: i map_of_stored)
  qed
qed

text \<open>
  C9. From an index whose releases are a stable \<open>v1.0.0\<close> entry and a beta \<open>v1.1.0-rc1\<close> entry
  (in either order), upserting \<open>v1.2.0\<close> returns an index with \<open>latest_stable\<close> equal to
  \<open>v1.2.0\<close> and \<open>latest_beta\<close> equal to \<open>v1.1.0-rc1\<close>. Upserting \<open>v1.15.0\<close> into the empty
  index returns an index whose releases are exactly the new entry (of channel stable, with the
  given build count), with \<open>latest_stable\<close> equal to \<open>v1.15.0\<close> and neither \<open>latest_beta\<close> nor
  \<open>latest_dev\<close>.
\<close>

theorem upsert_examples:
  assumes "rs = [r1, r2] \<or> rs = [r2, r1]"
    and "map_of index ''releases'' = Some (JArr (map JObj rs))"
    and "map_of r1 ''version'' = Some (JStr ''v1.0.0'')"
    and "map_of r1 ''channel'' = Some (JStr ''stable'')"
    and "map_of r2 ''version'' = Some (JStr ''v1.1.0-rc1'')"
    and "map_of r2 ''channel'' = Some (JStr ''beta'')"
  shows "(\<exists>index'. update_index today now index ''v1.2.0'' g n u s = Inr index' \<and>
            map_of index' ''latest_stable'' = Some (JStr ''v1.2.0'') \<and>
            map_of index' ''latest_beta'' = Some (JStr ''v1.1.0-rc1'')) \<and>
         (\<exists>index'. update_index today now (create_empty_index t0) ''v1.15.0'' g n u s = Inr index' \<and>
            index_releases index' = [JObj (new_entry_of today ''v1.15.0'' g n u s)] \<and>
            entry_field ''channel'' (JObj (new_entry_of today ''v1.15.0'' g n u s)) = Some (JStr ''stable'') \<and>
            entry_field ''build_count'' (JObj (new_entry_of today ''v1.15.0'' g n u s)) = Some (JInt n) \<and>
            map_of index' ''latest_stable'' = Some (JStr ''v1.15.0'') \<and>
            map_of index' ''latest_beta'' = None \<and>
            map_of index' ''latest_dev'' = None)"
proof
  let ?E = "new_entry_of today ''v1.2.0'' g n u s"
  have n1: "\<not> get_is r1 ''version'' ''v1.2.0''" "\<not> get_is r2 ''version'' ''v1.2.0''"
    using assms(3,5) by (simp_all add: get_is_iff)
  have kept: "remove_version ''v1.2.0'' (JArr (map JObj rs)) = Inr rs"
    using assms(1) n1 by (auto simp: remove_version_def)
  have "has_sort_key r1" "has_sort_key r2"
    using assms(3,5) by (simp_all add: has_sort_key_def)
  then have sk: "list_all has_sort_key (rs @ [?E])"
    using assms(1) by (auto simp: new_entry_facts)
  have ks: "release_key r1 = (1, 0, 0, ''zzz'', 0)" "release_key r2 = (1, 1, 0, ''rc'', 1)"
    "release_key ?E = (1, 2, 0, ''zzz'', 0)"
    using assms(3,5) by (simp_all add: release_key_def map_of_new_entry parse_examples)
  have up: "sort_reverse release_key (rs @ [?E]) = [?E, r2, r1]"
    using assms(1) sort_three[of release_key r1 r2 ?E, OF ks] by auto
  have c: "get_is ?E ''channel'' ''stable''" "\<not> get_is ?E ''channel'' ''beta''"
    "\<not> get_is ?E ''channel'' ''dev''" "\<not> get_is r2 ''channel'' ''stable''"
    "get_is r2 ''channel'' ''beta''" "\<not> get_is r2 ''channel'' ''dev''"
    "\<not> get_is r1 ''channel'' ''dev''"
    using assms(4,6)
    by (simp_all add: get_is_iff map_of_new_entry channel_examples channel_name_def)
  have l: "latest_of ''stable'' [?E, r2, r1] = Inr (Some (JStr ''v1.2.0''))"
    "latest_of ''beta'' [?E, r2, r1] = Inr (Some (JStr ''v1.1.0-rc1''))"
    "latest_of ''dev'' [?E, r2, r1] = Inr None"
    using assms(5) by (simp_all add: latest_of_def c map_of_new_entry)
  have "update_index today now index ''v1.2.0'' g n u s =
          Inr (stored now [?E, r2, r1] (Some (JStr ''v1.2.0'')) (Some (JStr ''v1.1.0-rc1'')) None index)"
    by (simp add: update_index_eq assms(2) kept sk up l del: list_all_append)
  then show "\<exists>index'. update_index today now index ''v1.2.0'' g n u s = Inr index' \<and>
            map_of index' ''latest_stable'' = Some (JStr ''v1.2.0'') \<and>
            map_of index' ''latest_beta'' = Some (JStr ''v1.1.0-rc1'')"
    by (simp add: map_of_stored)
next
  let ?E = "new_entry_of today ''v1.15.0'' g n u s"
  have c: "get_is ?E ''channel'' ''stable''" "\<not> get_is ?E ''channel'' ''beta''"
    "\<not> get_is ?E ''channel'' ''dev''"
    by (simp_all add: get_is_iff map_of_new_entry channel_examples channel_name_def)
  have l: "latest_of ''stable'' [?E] = Inr (Some (JStr ''v1.15.0''))"
    "latest_of ''beta'' [?E] = Inr None"
    "latest_of ''dev'' [?E] = Inr None"
    by (simp_all add: latest_of_def c map_of_new_entry)
  have r: "map_of (create_empty_index t0) ''releases'' = Some (JArr [])"
    by (simp add: create_empty_index_def)
  have k: "remove_version ''v1.15.0'' (JArr []) = Inr []"
    by (simp add: remove_version_def)
  have s1: "sort_reverse release_key [?E] = [?E]" by (simp add: sort_reverse_def)
  have run: "update_index today now (create_empty_index t0) ''v1.15.0'' g n u s =
          Inr (stored now [?E] (Some (JStr ''v1.15.0'')) None None (create_empty_index t0))"
    by (simp add: update_index_eq r k new_entry_facts s1 l)
  have b: "entry_field ''build_count'' (JObj ?E) = Some (JInt n)"
    by (simp add: entry_field_def new_entry_of_def make_entry_def Let_def update_conv')
  have ch: "entry_field ''channel'' (JObj ?E) = Some (JStr ''stable'')"
    by (simp add: entry_field_def map_of_new_entry channel_examples channel_name_def)
  have m: "map_of (create_empty_index t0) ''latest_beta'' = None"
    "map_of (create_empty_index t0) ''latest_dev'' = None"
    by (simp_all add: create_empty_index_def)
  show "\<exists>index'. update_index today now (create_empty_index t0) ''v1.15.0'' g n u s = Inr index' \<and>
            index_releases index' = [JObj ?E] \<and>
            entry_field ''channel'' (JObj ?E) = Some (JStr ''stable'') \<and>
            entry_field ''build_count'' (JObj ?E) = Some (JInt n) \<and>
            map_of index' ''latest_stable'' = Some (JStr ''v1.15.0'') \<and>
            map_of index' ''latest_beta'' = None \<and>
            map_of index' ''latest_dev'' = None"
    unfolding run using b ch m by (simp add: map_of_stored index_releases_def)
qed

text \<open>
  C6. Upsert keys releases by version: from an index with at most one entry per version the result
  has again at most one entry per version, and exactly one entry for the upserted version, which
  is the new entry with the new \<open>manifest_url\<close>. When the upserted version was already present
  the result has as many releases as the input; otherwise it has one more.
\<close>

theorem upsert_by_version:
  assumes "update_index today now index v g n u s = Inr index'"
    and "one_per_version (index_releases index)"
  shows "one_per_version (index_releases index') \<and>
         filter (\<lambda>e. entry_field ''version'' e = Some (JStr v)) (index_releases index') =
           [JObj (new_entry_of today v g n u s)] \<and>
         entry_field ''manifest_url'' (JObj (new_entry_of today v g n u s)) = Some (JStr u) \<and>
         length (index_releases index') =
           (if \<exists>e\<in>set (index_releases index). entry_field ''version'' e = Some (JStr v)
            then length (index_releases index) else length (index_releases index) + 1)"
proof -
  let ?E = "new_entry_of today v g n u s"
  from index_releases_result[OF assms(1)] obtain rs where
    a: "index_releases index = map JObj rs" and
    b: "index_releases index' = map JObj (upsert_releases v ?E rs)" by blast
  have d: "distinct (List.map_filter (\<lambda>r. map_of r ''version'') rs)"
    using assms(2) by (simp add: one_per_version_def a map_filter_entries)
  have 1: "one_per_version (index_releases index')"
    using one_per_version_upsert[OF d map_of_new_entry(1)]
    by (simp add: one_per_version_def b map_filter_entries)
  have 2: "filter (\<lambda>e. entry_field ''version'' e = Some (JStr v)) (index_releases index') =
             [JObj ?E]"
    by (simp add: b filter_entries upserted_entry[OF map_of_new_entry(1)])
  have 3: "entry_field ''manifest_url'' (JObj ?E) = Some (JStr u)"
    by (simp add: entry_field_def map_of_new_entry)
  have e: "(\<exists>e\<in>set (index_releases index). entry_field ''version'' e = Some (JStr v)) =
           (\<exists>r\<in>set rs. map_of r ''version'' = Some (JStr v))"
    by (auto simp: a entry_field_def)
  have 4: "length (index_releases index') =
           (if \<exists>e\<in>set (index_releases index). entry_field ''version'' e = Some (JStr v)
            then length (index_releases index) else length (index_releases index) + 1)"
    unfolding e using length_upsert_present[OF d, of v ?E] length_upsert_absent[of rs v ?E]
    by (simp add: a b)
  from 1 2 3 4 show ?thesis by blast
qed

section \<open>Index updater: the properties at the example\<close>

theorem upsert_idempotent_witness:
  "update_index ''2025-06-01'' 1750000000 example_index ''v1.0.0'' ''v1.0.0'' 150
     ''https://example.org/new.json'' [] = Inr example_upserted \<and>
   update_index ''2025-06-01'' 1750000000 example_upserted ''v1.0.0'' ''v1.0.0'' 150
     ''https://example.org/new.json'' [] = Inr example_upserted"
  using upsert_idempotent[where today = "''2025-06-01''" and now = 1750000000
      and index = example_index and v = "''v1.0.0''" and g = "''v1.0.0''" and n = 150
      and u = "''https://example.org/new.json''" and s = "[]"] example_run
  by simp

theorem upsert_frame_witness:
  "map_of example_upserted ''description'' = map_of example_index ''description'' \<and>
   map_of example_upserted ''format_version'' = Some (JInt 1)"
  using upsert_frame[OF example_run, of "''description''"]
    upsert_frame[OF example_run, of "''format_version''"]
  by (simp add: example_index_def)

text \<open>
  C1 as stated fails: the example index is loaded with a \<open>latest_dev\<close> field, the result of the
  upsert has no release of channel dev, and the field is still there.
\<close>

theorem upsert_stale_latest_counterexample:
  "update_index ''2025-06-01'' 1750000000 example_index ''v1.0.0'' ''v1.0.0'' 150
     ''https://example.org/new.json'' [] = Inr example_upserted \<and>
   filter (in_channel ''dev'') (index_releases example_upserted) = [] \<and>
   map_of example_upserted ''latest_dev'' = Some (JStr ''v0.9.0-alpha1'')"
  by code_simp

theorem upsert_latest_witness:
  "map_of example_upserted ''latest_stable'' = Some (JStr ''v1.0.0'') \<and>
   map_of example_upserted ''latest_dev'' = map_of example_index ''latest_dev''"
proof -
  have s: "filter (in_channel ''stable'') (index_releases example_upserted) =
      [JObj [(''version'', JStr ''v1.0.0''), (''git_tag'', JStr ''v1.0.0''),
             (''release_date'', JStr ''2025-06-01''),
             (''channel'', JStr ''stable''), (''build_count'', JInt 150),
             (''manifest_url'', JStr ''https://example.org/new.json'')]]"
    by code_simp
  have d: "filter (in_channel ''dev'') (index_releases example_upserted) = []"
    by code_simp
  show ?thesis
    using upsert_latest[OF example_run, of "''stable''"] upsert_latest[OF example_run, of "''dev''"]
    by (simp add: s d entry_field_def)
qed

theorem upsert_by_version_witness:
  "one_per_version (index_releases example_index) \<and>
   one_per_version (index_releases example_upserted) \<and>
   length (index_releases example_upserted) = length (index_releases example_index)"
proof -
  have h: "one_per_version (index_releases example_index)" by code_simp
  have e: "\<exists>e\<in>set (index_releases example_index). entry_field ''version'' e = Some (JStr ''v1.0.0'')"
    by code_simp
  show ?thesis using upsert_by_version[OF example_run h] h e by simp
qed

theorem upsert_examples_witness:
  "\<exists>index'. update_index ''2025-06-01'' 1750000000 example_index ''v1.2.0'' ''v1.2.0'' 150
       ''https://example.org/new.json'' [] = Inr index' \<and>
     map_of index' ''latest_stable'' = Some (JStr ''v1.2.0'') \<and>
     map_of index' ''latest_beta'' = Some (JStr ''v1.1.0-rc1'')"
proof -
  let ?r2 = "[(''version'', JStr ''v1.1.0-rc1''), (''channel'', JStr ''beta''),
              (''manifest_url'', JStr ''https://example.org/v1.1.0-rc1.json'')]"
  let ?r1 = "[(''version'', JStr ''v1.0.0''), (''channel'', JStr ''stable''),
              (''manifest_url'', JStr ''https://example.org/old.json'')]"
  have a: "[?r2, ?r1] = [?r1, ?r2] \<or> [?r2, ?r1] = [?r2, ?r1]" by simp
  have b: "map_of example_index ''releases'' = Some (JArr (map JObj [?r2, ?r1]))"
    by (simp add: example_index_def)
  show ?thesis
    using upsert_examples[OF a b, where today = "''2025-06-01''" and now = 1750000000
        and g = "''v1.2.0''" and n = 150 and u = "''https://example.org/new.json''" and s = "[]"]
    by simp
qed

section \<open>Manifest builder: properties\<close>

text \<open>
  C8. For every list of artifact files (empty, or with documents that are skipped), a manifest
  that \<open>generate_release_manifest\<close> returns has \<open>build_count\<close> equal to the length of its
  \<open>builds\<close>, which is the number of files that yielded metadata. When no file yields metadata the
  manifest is returned, with \<open>build_count\<close> 0 and empty \<open>builds\<close>.
\<close>

theorem manifest_build_count:
  assumes "reorders list_sort"
  shows "(\<forall>m. generate_release_manifest list_sort now px4_files version git_tag base_url = Inr m \<longrightarrow>
            (\<exists>builds. map_of m ''builds'' = Some (JArr (map JObj builds)) \<and>
               map_of m ''build_count'' = Some (JInt (int (length builds))) \<and>
               length builds = length (survivors px4_files))) \<and>
         (survivors px4_files = [] \<longrightarrow>
            (\<exists>m. generate_release_manifest list_sort now px4_files version git_tag base_url = Inr m \<and>
               map_of m ''build_count'' = Some (JInt 0) \<and> map_of m ''builds'' = Some (JArr [])))"
proof (intro conjI allI impI)
  fix m
  assume g: "generate_release_manifest list_sort now px4_files version git_tag base_url = Inr m"
  from generate_release_manifest_InrD[OF assms g] obtain builds0 builds where
    c: "collect_builds base_url px4_files = Inr builds0" and p: "mset builds = mset builds0" and
    m: "m = [(''format_version'', JInt 1), (''generated_at'', JInt now),
             (''version'', JStr version), (''git_tag'', JStr git_tag),
             (''build_count'', JInt (int (length builds))),
             (''builds'', JArr (map JObj builds))]" by auto
  from collect_builds_Inr[of base_url px4_files] c have
    f: "map (\<lambda>b. map_of b ''filename'') builds0 =
        map (\<lambda>(n, c). Some (JStr n)) (survivors px4_files)" by auto
  have "length builds = length builds0" using p by (rule mset_eq_length)
  also have "\<dots> = length (map (\<lambda>b. map_of b ''filename'') builds0)" by simp
  also have "\<dots> = length (survivors px4_files)" by (simp only: f length_map)
  finally have l: "length builds = length (survivors px4_files)" .
  show "\<exists>builds. map_of m ''builds'' = Some (JArr (map JObj builds)) \<and>
      map_of m ''build_count'' = Some (JInt (int (length builds))) \<and>
      length builds = length (survivors px4_files)"
    by (rule exI[of _ builds]) (simp add: m l)
next
  assume z: "survivors px4_files = []"
  from collect_builds_Inr[of base_url px4_files] obtain builds0 where
    c: "collect_builds base_url px4_files = Inr builds0" and
    f: "map (\<lambda>b. map_of b ''filename'') builds0 =
        map (\<lambda>(n, c). Some (JStr n)) (survivors px4_files)" by auto
  have b0: "builds0 = []" using f z by simp
  have s: "list_sort [] [] = Inr []" using assms by (rule reorders_empty)
  have "generate_release_manifest list_sort now px4_files version git_tag base_url =
      Inr [(''format_version'', JInt 1), (''generated_at'', JInt now),
           (''version'', JStr version), (''git_tag'', JStr git_tag),
           (''build_count'', JInt 0), (''builds'', JArr [])]"
    by (simp add: generate_release_manifest_def c b0 s)
  then show "\<exists>m. generate_release_manifest list_sort now px4_files version git_tag base_url = Inr m \<and>
      map_of m ''build_count'' = Some (JInt 0) \<and> map_of m ''builds'' = Some (JArr [])"
    by simp
qed

theorem manifest_build_count_witness:
  "generate_release_manifest list_sort_str 1750000000 example_files ''v1.15.0'' ''v1.15.0''
     ''https://example.org/fw/'' = Inr example_manifest \<and>
   length example_files = 4 \<and> length (survivors example_files) = 2 \<and>
   map_of example_manifest ''build_count'' = Some (JInt 2) \<and>
   (\<exists>m. generate_release_manifest list_sort_str 1750000000 [] ''v1.15.0'' ''v1.15.0''
          ''https://example.org/fw/'' = Inr m \<and>
        map_of m ''build_count'' = Some (JInt 0) \<and> map_of m ''builds'' = Some (JArr []))"
proof -
  note t = manifest_build_count[OF reorders_list_sort_str, of 1750000000 _ "''v1.15.0''"
      "''v1.15.0''" "''https://example.org/fw/''"]
  have n: "length example_files = 4" "length (survivors example_files) = 2"
    "survivors [] = []"
    by code_simp+
  have "\<forall>m. generate_release_manifest list_sort_str 1750000000 example_files ''v1.15.0''
          ''v1.15.0'' ''https://example.org/fw/'' = Inr m \<longrightarrow>
        (\<exists>builds. map_of m ''builds'' = Some (JArr (map JObj builds)) \<and>
           map_of m ''build_count'' = Some (JInt (int (length builds))) \<and>
           length builds = length (survivors example_files))"
    using t[of example_files] by (rule conjunct1)
  from this[rule_format, OF example_manifest_run]
  have c: "map_of example_manifest ''build_count'' = Some (JInt 2)"
    using n(2) by auto
  have e: "\<exists>m. generate_release_manifest list_sort_str 1750000000 [] ''v1.15.0'' ''v1.15.0''
          ''https://example.org/fw/'' = Inr m \<and>
        map_of m ''build_count'' = Some (JInt 0) \<and> map_of m ''builds'' = Some (JArr [])"
    using t[of "[]"] n(3) by simp
  show ?thesis using example_manifest_run n(1,2) c e by simp
qed

text \<open>
  C7, as the code has it. A manifest that \<open>generate_release_manifest\<close> returns has one entry
  for each file that yielded metadata, under that file's name. When \<open>base_url\<close> is not empty the
  entry's url is \<open>base_url\<close> with all its trailing slashes stripped, then one slash, then the
  filename; when \<open>base_url\<close> is empty no entry has a url. Stripping all trailing slashes is
  stripping exactly one unless \<open>base_url\<close> ends in two slashes.
\<close>

theorem manifest_urls:
  assumes "reorders list_sort"
    and "generate_release_manifest list_sort now px4_files version git_tag base_url = Inr m"
  shows "(\<exists>builds. map_of m ''builds'' = Some (JArr (map JObj builds)) \<and>
            mset (map (\<lambda>b. map_of b ''filename'') builds) =
              mset (map (\<lambda>(n, c). Some (JStr n)) (survivors px4_files)) \<and>
            (\<forall>b\<in>set builds. \<exists>filename.
               map_of b ''filename'' = Some (JStr filename) \<and>
               map_of b ''url'' =
                 (if base_url = [] then None
                  else Some (JStr (rstrip_slash base_url @ ''/'' @ filename))))) \<and>
         (\<exists>k. base_url = rstrip_slash base_url @ replicate k CHR ''/'') \<and>
         (rstrip_slash base_url = [] \<or> last (rstrip_slash base_url) \<noteq> CHR ''/'') \<and>
         (\<not> (\<exists>p. base_url = p @ ''//'') \<longrightarrow> rstrip_slash base_url = strip_one_slash base_url)"
proof -
  from generate_release_manifest_InrD[OF assms] obtain builds0 builds where
    c: "collect_builds base_url px4_files = Inr builds0" and p: "mset builds = mset builds0" and
    m: "m = [(''format_version'', JInt 1), (''generated_at'', JInt now),
             (''version'', JStr version), (''git_tag'', JStr git_tag),
             (''build_count'', JInt (int (length builds))),
             (''builds'', JArr (map JObj builds))]" by auto
  from collect_builds_Inr[of base_url px4_files] c have
    f: "map (\<lambda>b. map_of b ''filename'') builds0 =
        map (\<lambda>(n, c). Some (JStr n)) (survivors px4_files)" and
    u: "\<forall>b\<in>set builds0. \<exists>name.
        map_of b ''filename'' = Some (JStr name) \<and>
        map_of b ''url'' =
          (if base_url = [] then None else Some (JStr (rstrip_slash base_url @ ''/'' @ name)))"
    by auto
  have s: "set builds = set builds0" using p by (rule mset_eq_setD)
  have "mset (map (\<lambda>b. map_of b ''filename'') builds) =
        mset (map (\<lambda>b. map_of b ''filename'') builds0)"
    using p by simp
  then have fm: "mset (map (\<lambda>b. map_of b ''filename'') builds) =
        mset (map (\<lambda>(n, c). Some (JStr n)) (survivors px4_files))"
    by (simp only: f)
  have 1: "\<exists>builds. map_of m ''builds'' = Some (JArr (map JObj builds)) \<and>
            mset (map (\<lambda>b. map_of b ''filename'') builds) =
              mset (map (\<lambda>(n, c). Some (JStr n)) (survivors px4_files)) \<and>
            (\<forall>b\<in>set builds. \<exists>filename.
               map_of b ''filename'' = Some (JStr filename) \<and>
               map_of b ''url'' =
                 (if base_url = [] then None
                  else Some (JStr (rstrip_slash base_url @ ''/'' @ filename))))"
    using u fm unfolding s[symmetric] by (intro exI[of _ builds]) (simp add: m)
  have 4: "\<not> (\<exists>p. base_url = p @ ''//'') \<longrightarrow> rstrip_slash base_url = strip_one_slash base_url"
    using rstrip_slash_one[of base_url] by (rule impI)
  show ?thesis
    using 1 rstrip_slash_decomp[of base_url] rstrip_slash_last[of base_url] 4
    by (intro conjI)
qed

theorem manifest_urls_witness:
  "generate_release_manifest list_sort_str 1750000000 example_files ''v1.15.0'' ''v1.15.0''
     ''https://example.org/fw/'' = Inr example_manifest \<and>
   rstrip_slash ''https://example.org/fw/'' = ''https://example.org/fw'' \<and>
   (\<exists>builds. map_of example_manifest ''builds'' = Some (JArr (map JObj builds)) \<and>
      mset (map (\<lambda>b. map_of b ''filename'') builds) =
        mset (map (\<lambda>(n, c). Some (JStr n)) (survivors example_files)) \<and>
      (\<forall>b\<in>set builds. \<exists>filename.
         map_of b ''filename'' = Some (JStr filename) \<and>
         map_of b ''url'' = Some (JStr (''https://example.org/fw'' @ ''/'' @ filename))))"
proof -
  have r: "rstrip_slash ''https://example.org/fw/'' = ''https://example.org/fw''"
    by code_simp
  have n: "''https://example.org/fw/'' \<noteq> []" by simp
  show ?thesis
    using manifest_urls[OF reorders_list_sort_str example_manifest_run] example_manifest_run
    unfolding r by (simp only: n if_False simp_thms)
qed

text \<open>
  C7 as stated fails: with two trailing slashes in \<open>base_url\<close> the url has both stripped, not
  exactly one.
\<close>

theorem manifest_urls_counterexample:
  "generate_release_manifest list_sort_str 17
     [(''a.px4'', Some (JObj [(''magic'', JStr ''PX4FWv1''), (''board_id'', JInt 9),
                               (''image'', JStr ''eJzt'')]))]
     [] [] ''http://x//'' =
   Inr [(''format_version'', JInt 1), (''generated_at'', JInt 17),
        (''version'', JStr []), (''git_tag'', JStr []),
        (''build_count'', JInt 1),
        (''builds'', JArr
           [JObj [(''filename'', JStr ''a.px4''), (''board_id'', JInt 9),
                  (''board_revision'', JInt 0), (''version'', JStr []),
                  (''git_identity'', JStr []), (''git_hash'', JStr []),
                  (''build_time'', JInt 0), (''image_size'', JInt 0),
                  (''sha256sum'', JStr []), (''mav_autopilot'', JInt 12),
                  (''url'', JStr ''http://x/a.px4'')]])] \<and>
   spec_url ''http://x//'' ''a.px4'' = ''http://x//a.px4''"
  by code_simp

end
